theory Spec2Isabelle
  imports Complex_Main
begin

section \<open>Data model of \<open>src/Game/movimentoPersonagem.js\<close>\<close>

text \<open>
  The game keeps its world in module-level variables of \<open>main\<close>: the player object, the
  arrays \<open>trees\<close>, \<open>cars\<close> and \<open>terrainRows\<close>, the flags \<open>isPaused\<close> and \<open>isGameOver\<close>, the
  scroll position \<open>cameraX\<close>, the score bookkeeping and \<open>lastTime\<close>. They are collected in
  one record that every operation takes and returns. JavaScript numbers are modelled as
  exact reals. Calls into WebGL and the matrix library only read this state and are left
  out, and so is the view-up vector \<open>V\<close>, which only feeds the viewing matrix; the DOM
  nodes the code writes (score text, final score, modal visibility, pause button label)
  are fields of the record.

  \<open>Math.random()\<close> is the \<open>n\<close>-th value of a draw sequence \<open>rng\<close>, where \<open>n\<close> counts the
  draws made so far (field \<open>draws\<close>).
\<close>

datatype row_kind = Grass | Road

datatype projection = Ortho | Perspective

record car =
  car_x :: real
  car_y :: real
  car_z :: real
  car_speed :: "real option"
  car_direction :: "real option"
  car_minZ :: real
  car_maxZ :: real
  car_scale :: real
  car_modelIndex :: int

record tree =
  tree_x :: real
  tree_y :: real
  tree_z :: real
  tree_scale :: real
  tree_modelIndex :: int

record row =
  row_x :: real
  row_type :: row_kind
  row_modelIndex :: int
  row_direction :: "real option"
  row_speed :: "real option"
  row_cars :: "car list"

record player =
  p_x :: real
  p_y :: real
  p_z :: real
  p_scale :: real
  p_rotationY :: real
  p_modelIndex :: int

record game =
  player :: player
  trees :: "tree list"
  cars :: "car list"
  terrainRows :: "row list"
  isPaused :: bool
  isGameOver :: bool
  cameraX :: real
  maxDistanceX :: real
  lastTime :: "real option"
  projectionMode :: projection
  cameraMode :: nat
  frameCount :: nat
  draws :: nat
  scoreText :: int
  finalScoreText :: int
  modalHidden :: bool
  pauseBtnText :: string

text \<open>What the page shows before the script runs (the HTML is not part of the sources).\<close>

record page =
  page_score :: int
  page_finalScore :: int
  page_modalHidden :: bool
  page_pauseBtn :: string

datatype event =
  Tick real real
  | KeyDown bool string
  | PauseClick
  | RestartClick

section \<open>Constants\<close>

definition step :: real where "step = 1"
definition ROW_DEPTH :: real where "ROW_DEPTH = 1"
definition TERRAIN_WIDTH :: int where "TERRAIN_WIDTH = 31"
definition DRAW_DISTANCE :: int where "DRAW_DISTANCE = 40"
definition MODEL_GRASS :: int where "MODEL_GRASS = 6"
definition MODEL_ROAD :: int where "MODEL_ROAD = 7"
definition initialX :: real where "initialX = - 5"
definition scrollSpeed :: real where "scrollSpeed = 2 / 10"

text \<open>\<open>null\<close> in arithmetic or a comparison is the number 0.\<close>

definition num :: "real option \<Rightarrow> real" where
  "num v = (case v of None \<Rightarrow> 0 | Some r \<Rightarrow> r)"

section \<open>Collision tests\<close>

definition checkCollisionWithTrees :: "game \<Rightarrow> real \<Rightarrow> real \<Rightarrow> bool" where
  "checkCollisionWithTrees s newX newZ =
     (let COLLISION_SIZE = 5 / 10 in
      list_ex (\<lambda>t. \<bar>tree_x t - newX\<bar> < COLLISION_SIZE \<and> \<bar>tree_z t - newZ\<bar> < COLLISION_SIZE)
        (trees s))"

definition checkCollisionWithCars :: "game \<Rightarrow> real \<Rightarrow> real \<Rightarrow> bool" where
  "checkCollisionWithCars s newX newZ =
     (let COLLISION_SIZE = 7 / 10 in
      list_ex (\<lambda>c. \<bar>car_x c - newX\<bar> < COLLISION_SIZE \<and> \<bar>car_z c - newZ\<bar> < COLLISION_SIZE)
        (cars s))"

section \<open>Keyboard input\<close>

definition lowerChar :: "char \<Rightarrow> char" where
  "lowerChar c =
     (if 65 \<le> (of_char c :: nat) \<and> (of_char c :: nat) \<le> 90
      then char_of ((of_char c :: nat) + 32) else c)"

definition toLowerCase :: "string \<Rightarrow> string" where
  "toLowerCase k = map lowerChar k"

text \<open>
  \<open>keyDown repeat key s\<close>: the handler for a key event with \<open>event.repeat = repeat\<close> and
  \<open>event.key = key\<close>.
\<close>

definition keyDown :: "bool \<Rightarrow> string \<Rightarrow> game \<Rightarrow> game" where
  "keyDown repeat key s =
     (if repeat then s
      else let boundaryLimit = real_of_int (TERRAIN_WIDTH div 4 + 1) in
        if isPaused s then s
        else let k = toLowerCase key; p = player s in
          if k = ''1'' then s\<lparr>projectionMode := Ortho\<rparr>
          else if k = ''2'' then s\<lparr>projectionMode := Perspective\<rparr>
          else if k = ''c'' then s\<lparr>cameraMode := (cameraMode s + 1) mod 2\<rparr>
          else if k = ''w'' then
            (let newXForward = p_x p + step;
                 p1 = (if \<not> checkCollisionWithTrees s newXForward (p_z p)
                       then p\<lparr>p_x := newXForward\<rparr> else p)
             in s\<lparr>player := p1\<lparr>p_rotationY := 90\<rparr>\<rparr>)
          else if k = ''s'' then
            (let newXBackward = p_x p - step;
                 p1 = (if \<not> checkCollisionWithTrees s newXBackward (p_z p)
                       then p\<lparr>p_x := newXBackward\<rparr> else p)
             in s\<lparr>player := p1\<lparr>p_rotationY := 270\<rparr>\<rparr>)
          else if k = ''a'' then
            (let newZLeft = p_z p - step;
                 p1 = (if newZLeft \<ge> - boundaryLimit \<and> \<not> checkCollisionWithTrees s (p_x p) newZLeft
                       then p\<lparr>p_z := newZLeft\<rparr> else p)
             in s\<lparr>player := p1\<lparr>p_rotationY := 180\<rparr>\<rparr>)
          else if k = ''d'' then
            (let newZRight = p_z p + step;
                 p1 = (if newZRight \<le> boundaryLimit \<and> \<not> checkCollisionWithTrees s (p_x p) newZRight
                       then p\<lparr>p_z := newZRight\<rparr> else p)
             in s\<lparr>player := p1\<lparr>p_rotationY := 0\<rparr>\<rparr>)
          else s)"

section \<open>Lane generator and spawners\<close>

text \<open>
  \<open>createRow rng xPosition n\<close> returns the new row and the draw counter after it. The
  first draw is made only when \<open>xPosition > -5\<close> (the \<open>&&\<close> short-circuits).
\<close>

definition createRow :: "(nat \<Rightarrow> real) \<Rightarrow> real \<Rightarrow> nat \<Rightarrow> row \<times> nat" where
  "createRow rng xPosition n =
     (let (isRoad, n1) = (if xPosition > - 5 then (rng n < 4 / 10, n + 1) else (False, n));
          ty = (if isRoad then Road else Grass);
          (roadDirection, roadSpeed, n2) =
             (if ty = Road
              then (Some (if rng n1 < 5 / 10 then - 1 else 1), Some (3 + rng (n1 + 1) * 7), n1 + 2)
              else (None, None, n1))
      in (\<lparr>row_x = xPosition, row_type = ty,
           row_modelIndex = (if ty = Grass then MODEL_GRASS else MODEL_ROAD),
           row_direction = roadDirection, row_speed = roadSpeed, row_cars = []\<rparr>, n2))"

text \<open>The body of the \<open>for zOffset\<close> loop of \<open>spawnTreesOnRow\<close>, over the remaining offsets.\<close>

fun spawnTrees_loop :: "(nat \<Rightarrow> real) \<Rightarrow> row \<Rightarrow> int list \<Rightarrow> game \<Rightarrow> game" where
  "spawnTrees_loop rng r [] s = s"
| "spawnTrees_loop rng r (zOffset # zs) s =
     (if \<bar>row_x r - (- 5)\<bar> < 3 \<and> \<bar>real_of_int zOffset * 1\<bar> < 3
      then spawnTrees_loop rng r zs s
      else if rng (draws s) < 15 / 100
      then (let randomTreeIndex = 8 + \<lfloor>rng (draws s + 1) * 5\<rfloor>
            in spawnTrees_loop rng r zs
                 (s\<lparr>draws := draws s + 2,
                    trees := trees s @ [\<lparr>tree_x = row_x r, tree_y = 0,
                       tree_z = real_of_int zOffset * 1, tree_scale = 8 / 10,
                       tree_modelIndex = randomTreeIndex\<rparr>]\<rparr>))
      else spawnTrees_loop rng r zs (s\<lparr>draws := draws s + 1\<rparr>))"

definition spawnTreesOnRow :: "(nat \<Rightarrow> real) \<Rightarrow> row \<Rightarrow> game \<Rightarrow> game" where
  "spawnTreesOnRow rng r s =
     (if row_type r \<noteq> Grass then s
      else let halfWidth = TERRAIN_WIDTH div 2
           in spawnTrees_loop rng r [- halfWidth .. halfWidth] s)"

text \<open>The \<open>for i\<close> loop of \<open>spawnCarsOnRow\<close>, with the number of iterations still to run.\<close>

fun spawnCars_loop :: "(nat \<Rightarrow> real) \<Rightarrow> row \<Rightarrow> nat \<Rightarrow> game \<Rightarrow> game" where
  "spawnCars_loop rng r 0 s = s"
| "spawnCars_loop rng r (Suc k) s =
     (let halfWidth = real_of_int (TERRAIN_WIDTH div 2);
          MIN_DISTANCE = 3;
          randomZ = rng (draws s) * (halfWidth * 2) - halfWidth;
          tooClose = list_ex (\<lambda>c. car_x c = row_x r \<and> \<bar>car_z c - randomZ\<bar> < MIN_DISTANCE) (cars s)
      in if \<not> tooClose
         then (let randomCarModel = \<lfloor>rng (draws s + 1) * 4\<rfloor>
               in spawnCars_loop rng r k
                    (s\<lparr>draws := draws s + 2,
                       cars := cars s @ [\<lparr>car_x = row_x r, car_y = 0, car_z = randomZ,
                          car_speed = row_speed r, car_direction = row_direction r,
                          car_minZ = - halfWidth, car_maxZ = halfWidth,
                          car_scale = 6 / 10, car_modelIndex = randomCarModel\<rparr>]\<rparr>))
         else spawnCars_loop rng r k (s\<lparr>draws := draws s + 1\<rparr>))"

definition spawnCarsOnRow :: "(nat \<Rightarrow> real) \<Rightarrow> row \<Rightarrow> game \<Rightarrow> game" where
  "spawnCarsOnRow rng r s =
     (if row_type r \<noteq> Road then s
      else let numCars = \<lfloor>rng (draws s) * 3\<rfloor> + 2
           in spawnCars_loop rng r (nat numCars) (s\<lparr>draws := draws s + 1\<rparr>))"

text \<open>One lane: create the row, append it, populate it (shared by both terrain loops).\<close>

definition addRow :: "(nat \<Rightarrow> real) \<Rightarrow> real \<Rightarrow> game \<Rightarrow> game" where
  "addRow rng x s =
     (let (newRow, n) = createRow rng x (draws s);
          s1 = s\<lparr>draws := n, terrainRows := terrainRows s @ [newRow]\<rparr>;
          s2 = spawnTreesOnRow rng newRow s1
      in spawnCarsOnRow rng newRow s2)"

section \<open>World window\<close>

fun initTerrain_loop :: "(nat \<Rightarrow> real) \<Rightarrow> real \<Rightarrow> int list \<Rightarrow> game \<Rightarrow> game" where
  "initTerrain_loop rng startX [] s = s"
| "initTerrain_loop rng startX (i # is) s =
     initTerrain_loop rng startX is (addRow rng (startX + real_of_int i * ROW_DEPTH) s)"

definition initTerrain :: "(nat \<Rightarrow> real) \<Rightarrow> real \<Rightarrow> game \<Rightarrow> game" where
  "initTerrain rng startX s = initTerrain_loop rng startX [- 10 .. DRAW_DISTANCE - 1] s"

text \<open>The \<open>while (lastX < addThreshold)\<close> loop of \<open>updateTerrain\<close>.\<close>

function extend_loop :: "(nat \<Rightarrow> real) \<Rightarrow> real \<Rightarrow> real \<Rightarrow> game \<Rightarrow> game" where
  "extend_loop rng addThreshold lastX s =
     (if lastX < addThreshold
      then extend_loop rng addThreshold (lastX + ROW_DEPTH) (addRow rng (lastX + ROW_DEPTH) s)
      else s)"
  by pat_completeness auto
termination
proof (relation "measure (\<lambda>(rng, addThreshold, lastX, s). nat \<lceil>addThreshold - lastX\<rceil>)")
  show "wf (measure (\<lambda>(rng, addThreshold, lastX, s). nat \<lceil>addThreshold - lastX\<rceil>))"
    by simp
next
  fix rng :: "nat \<Rightarrow> real" and addThreshold lastX :: real and s :: game
  assume "lastX < addThreshold"
  then have "0 < \<lceil>addThreshold - lastX\<rceil>" by simp
  moreover have "\<lceil>addThreshold - (lastX + ROW_DEPTH)\<rceil> = \<lceil>addThreshold - lastX\<rceil> - 1"
    by (simp add: ROW_DEPTH_def algebra_simps) linarith
  ultimately show "((rng, addThreshold, lastX + ROW_DEPTH, addRow rng (lastX + ROW_DEPTH) s),
                    (rng, addThreshold, lastX, s))
                   \<in> measure (\<lambda>(rng, addThreshold, lastX, s). nat \<lceil>addThreshold - lastX\<rceil>)"
    by simp
qed

declare extend_loop.simps [simp del]

definition updateTerrain :: "(nat \<Rightarrow> real) \<Rightarrow> real \<Rightarrow> game \<Rightarrow> game" where
  "updateTerrain rng currentCameraX s =
     (let removeThreshold = currentCameraX - 15;
          rows1 = dropWhile (\<lambda>r. row_x r < removeThreshold) (terrainRows s);
          s1 = s\<lparr>terrainRows := rows1,
                 trees := filter (\<lambda>t. tree_x t \<ge> removeThreshold) (trees s),
                 cars := filter (\<lambda>c. car_x c \<ge> removeThreshold) (cars s)\<rparr>;
          lastX = (if rows1 \<noteq> [] then row_x (last rows1) else 0);
          addThreshold = currentCameraX + real_of_int DRAW_DISTANCE
      in extend_loop rng addThreshold lastX s1)"

section \<open>Session: game over, restart, pause\<close>

definition gameOver :: "game \<Rightarrow> game" where
  "gameOver s =
     s\<lparr>isPaused := True, isGameOver := True,
       finalScoreText := scoreText s, modalHidden := False\<rparr>"

definition restartGame :: "(nat \<Rightarrow> real) \<Rightarrow> game \<Rightarrow> game" where
  "restartGame rng s =
     (let s1 = s\<lparr>isPaused := False, isGameOver := False,
                 player := (player s)\<lparr>p_x := - 5, p_z := 0, p_rotationY := 90\<rparr>,
                 cameraX := - 12,
                 maxDistanceX := initialX, scoreText := 0,
                 trees := [], cars := [], terrainRows := []\<rparr>;
          s2 = initTerrain rng (- 12) s1
      in s2\<lparr>modalHidden := True, lastTime := None\<rparr>)"

definition pauseClick :: "game \<Rightarrow> game" where
  "pauseClick s =
     (let paused = \<not> isPaused s
      in s\<lparr>isPaused := paused, pauseBtnText := (if paused then ''RESUME'' else ''PAUSE'')\<rparr>)"

section \<open>The frame callback\<close>

text \<open>
  The callback of \<open>cars.forEach\<close> in \<open>drawScene\<close>, for the car \<open>c\<close>; \<open>others\<close> are the
  cars with \<open>otherCar !== car\<close>.
\<close>

definition moveCar :: "real \<Rightarrow> car list \<Rightarrow> car \<Rightarrow> car" where
  "moveCar dt others c =
     (let newZ = car_z c + num (car_speed c) * num (car_direction c) * dt;
          wouldCollide = list_ex (\<lambda>otherCar. car_x otherCar = car_x c \<and> \<bar>car_z otherCar - newZ\<bar> < 2)
                           others;
          c1 = (if \<not> wouldCollide then c\<lparr>car_z := newZ\<rparr> else c);
          velocidadeReal = num (car_speed c1) * num (car_direction c1)
      in if velocidadeReal > 0 \<and> car_z c1 > car_maxZ c1 then c1\<lparr>car_z := car_minZ c1\<rparr>
         else if velocidadeReal < 0 \<and> car_z c1 < car_minZ c1 then c1\<lparr>car_z := car_maxZ c1\<rparr>
         else c1)"

text \<open>
  The loop mutates the cars in place, so a car later in the array sees the new position
  of an earlier one: \<open>moved\<close> holds the cars already moved, the third argument those still
  to move.
\<close>

fun moveCars :: "real \<Rightarrow> car list \<Rightarrow> car list \<Rightarrow> car list" where
  "moveCars dt moved [] = moved"
| "moveCars dt moved (c # rest) = moveCars dt (moved @ [moveCar dt (moved @ rest) c]) rest"

text \<open>
  \<open>dt_of time s\<close>: the delta-time of a frame at timestamp \<open>time\<close>; \<open>!lastTime\<close> holds for
  \<open>null\<close> and for 0.
\<close>

definition dt_of :: "real \<Rightarrow> game \<Rightarrow> real" where
  "dt_of time s =
     (let lt = (case lastTime s of None \<Rightarrow> time | Some t \<Rightarrow> if t = 0 then time else t)
      in (time - lt) / 1000)"

text \<open>
  \<open>drawScene rng time aspect s\<close>: one frame at timestamp \<open>time\<close>, with
  \<open>aspect = gl.canvas.width / gl.canvas.height\<close>.
\<close>

definition drawScene :: "(nat \<Rightarrow> real) \<Rightarrow> real \<Rightarrow> real \<Rightarrow> game \<Rightarrow> game" where
  "drawScene rng time aspect s =
     (if isPaused s then s\<lparr>lastTime := Some time\<rparr>
      else
        let dt = dt_of time s;
            s1 = s\<lparr>lastTime := Some time\<rparr>;
            s2 = (if p_x (player s1) > maxDistanceX s1
                  then s1\<lparr>maxDistanceX := p_x (player s1),
                          scoreText := \<lfloor>(p_x (player s1) - initialX) / step\<rfloor>\<rparr>
                  else s1);
            worldWidth = 6;
            worldHeight = worldWidth / aspect;
            s3 = s2\<lparr>cameraX := cameraX s2 + scrollSpeed * dt\<rparr>;
            s4 = (if p_x (player s3) < cameraX s3 + 38 / 10 then gameOver s3 else s3);
            lookAhead = 10;
            minCameraYForPlayer = p_x (player s4) + worldHeight / 6 - lookAhead;
            s5 = (if cameraX s4 < minCameraYForPlayer
                  then s4\<lparr>cameraX := minCameraYForPlayer\<rparr> else s4);
            s6 = s5\<lparr>cars := moveCars dt [] (cars s5)\<rparr>;
            s7 = (if checkCollisionWithCars s6 (p_x (player s6)) (p_z (player s6))
                  then gameOver s6 else s6);
            s8 = updateTerrain rng (cameraX s7) s7
        in s8\<lparr>frameCount := frameCount s8 + 1\<rparr>)"

section \<open>Start state and runs\<close>

definition globals :: "page \<Rightarrow> game" where
  "globals pg =
     \<lparr>player = \<lparr>p_x = - 5, p_y = 0, p_z = 0, p_scale = 55 / 100, p_rotationY = 90,
                 p_modelIndex = 5\<rparr>,
      trees = [], cars = [], terrainRows = [],
      isPaused = False, isGameOver = False,
      cameraX = - 12, maxDistanceX = initialX, lastTime = None,
      projectionMode = Ortho, cameraMode = 0, frameCount = 0, draws = 0,
      scoreText = page_score pg, finalScoreText = page_finalScore pg,
      modalHidden = page_modalHidden pg, pauseBtnText = page_pauseBtn pg\<rparr>"

definition start :: "(nat \<Rightarrow> real) \<Rightarrow> page \<Rightarrow> game" where
  "start rng pg = initTerrain rng (- 12) (globals pg)"

fun handle :: "(nat \<Rightarrow> real) \<Rightarrow> game \<Rightarrow> event \<Rightarrow> game" where
  "handle rng s (Tick time aspect) = drawScene rng time aspect s"
| "handle rng s (KeyDown repeat key) = keyDown repeat key s"
| "handle rng s PauseClick = pauseClick s"
| "handle rng s RestartClick = restartGame rng s"

definition run :: "(nat \<Rightarrow> real) \<Rightarrow> game \<Rightarrow> event list \<Rightarrow> game" where
  "run rng s es = foldl (handle rng) s es"

section \<open>The phases of a running frame\<close>

text \<open>
  The statements of \<open>drawScene\<close> on the running path, one definition per group in the
  order the function executes them; \<open>drawScene_phases\<close> below shows that \<open>drawScene\<close> is
  their composition.
\<close>

definition clockAdvance :: "real \<Rightarrow> game \<Rightarrow> game" where
  "clockAdvance time s = s\<lparr>lastTime := Some time\<rparr>"

definition scoreUpdate :: "game \<Rightarrow> game" where
  "scoreUpdate s =
     (if p_x (player s) > maxDistanceX s
      then s\<lparr>maxDistanceX := p_x (player s), scoreText := \<lfloor>(p_x (player s) - initialX) / step\<rfloor>\<rparr>
      else s)"

definition scrollAdvance :: "real \<Rightarrow> game \<Rightarrow> game" where
  "scrollAdvance dt s = s\<lparr>cameraX := cameraX s + scrollSpeed * dt\<rparr>"

definition leftBehind :: "game \<Rightarrow> bool" where
  "leftBehind s = (p_x (player s) < cameraX s + 38 / 10)"

definition leftBehindCheck :: "game \<Rightarrow> game" where
  "leftBehindCheck s = (if leftBehind s then gameOver s else s)"

definition cameraPull :: "real \<Rightarrow> game \<Rightarrow> game" where
  "cameraPull aspect s =
     (let minCameraYForPlayer = p_x (player s) + (6 / aspect) / 6 - 10
      in if cameraX s < minCameraYForPlayer then s\<lparr>cameraX := minCameraYForPlayer\<rparr> else s)"

definition trafficMove :: "real \<Rightarrow> game \<Rightarrow> game" where
  "trafficMove dt s = s\<lparr>cars := moveCars dt [] (cars s)\<rparr>"

definition carHit :: "game \<Rightarrow> bool" where
  "carHit s = checkCollisionWithCars s (p_x (player s)) (p_z (player s))"

definition carCollisionCheck :: "game \<Rightarrow> game" where
  "carCollisionCheck s = (if carHit s then gameOver s else s)"

definition windowUpdate :: "(nat \<Rightarrow> real) \<Rightarrow> game \<Rightarrow> game" where
  "windowUpdate rng s = updateTerrain rng (cameraX s) s"

definition frameDone :: "game \<Rightarrow> game" where
  "frameDone s = s\<lparr>frameCount := frameCount s + 1\<rparr>"

definition tick_code_order :: "(nat \<Rightarrow> real) \<Rightarrow> real \<Rightarrow> real \<Rightarrow> game \<Rightarrow> game" where
  "tick_code_order rng time aspect s =
     (let dt = dt_of time s
      in (frameDone \<circ> windowUpdate rng \<circ> carCollisionCheck \<circ> trafficMove dt \<circ> cameraPull aspect
            \<circ> leftBehindCheck \<circ> scrollAdvance dt \<circ> scoreUpdate \<circ> clockAdvance time) s)"

text \<open>
  The order the specification gives for a running frame: clock, scroll, window
  extend/evict, traffic, collision detection, score, session transition. It is built
  from the same phases; the two tests that end the session are evaluated where the
  specification detects them (left behind right after the scroll advance, the car test
  after the traffic has moved) and the transition itself comes last.
\<close>

definition tick_spec_order :: "(nat \<Rightarrow> real) \<Rightarrow> real \<Rightarrow> real \<Rightarrow> game \<Rightarrow> game" where
  "tick_spec_order rng time aspect s =
     (let dt = dt_of time s;
          a = clockAdvance time s;
          b = scrollAdvance dt a;
          behind = leftBehind b;
          c = cameraPull aspect b;
          d = windowUpdate rng c;
          e = trafficMove dt d;
          hit = carHit e;
          f = scoreUpdate e;
          g = (if behind \<or> hit then gameOver f else f)
      in frameDone g)"

text \<open>
  The order of the specification with one change: the world window update comes last,
  after the traffic has moved and the session transition is made.
\<close>

definition tick_window_last :: "(nat \<Rightarrow> real) \<Rightarrow> real \<Rightarrow> real \<Rightarrow> game \<Rightarrow> game" where
  "tick_window_last rng time aspect s =
     (let dt = dt_of time s;
          a = clockAdvance time s;
          b = scrollAdvance dt a;
          behind = leftBehind b;
          c = cameraPull aspect b;
          e = trafficMove dt c;
          hit = carHit e;
          f = scoreUpdate e;
          g = (if behind \<or> hit then gameOver f else f);
          h = windowUpdate rng g
      in frameDone h)"

section \<open>Vocabulary of the properties\<close>

datatype intent = MoveForward | MoveBackward | StrafeLeft | StrafeRight

fun intent_key :: "intent \<Rightarrow> string" where
  "intent_key MoveForward = ''w''"
| "intent_key MoveBackward = ''s''"
| "intent_key StrafeLeft = ''a''"
| "intent_key StrafeRight = ''d''"

text \<open>The position each movement key proposes, and the heading it sets.\<close>

fun target :: "intent \<Rightarrow> player \<Rightarrow> real \<times> real" where
  "target MoveForward p = (p_x p + step, p_z p)"
| "target MoveBackward p = (p_x p - step, p_z p)"
| "target StrafeLeft p = (p_x p, p_z p - step)"
| "target StrafeRight p = (p_x p, p_z p + step)"

fun heading :: "intent \<Rightarrow> real" where
  "heading MoveForward = 90"
| "heading MoveBackward = 270"
| "heading StrafeLeft = 180"
| "heading StrafeRight = 0"

text \<open>The lateral bound test of the keys \<open>a\<close> and \<open>d\<close> fails.\<close>

fun beyond_bound :: "intent \<Rightarrow> player \<Rightarrow> bool" where
  "beyond_bound StrafeLeft p = (\<not> p_z p - step \<ge> - real_of_int (TERRAIN_WIDTH div 4 + 1))"
| "beyond_bound StrafeRight p = (\<not> p_z p + step \<le> real_of_int (TERRAIN_WIDTH div 4 + 1))"
| "beyond_bound i p = False"

definition near_tree :: "tree \<Rightarrow> real \<times> real \<Rightarrow> bool" where
  "near_tree t pos = (\<bar>tree_x t - fst pos\<bar> < 5 / 10 \<and> \<bar>tree_z t - snd pos\<bar> < 5 / 10)"

text \<open>The fields that the lane generator, the spawners and the world window never write.\<close>

definition same_session :: "game \<Rightarrow> game \<Rightarrow> bool" where
  "same_session s s' \<longleftrightarrow>
     player s' = player s \<and> isPaused s' = isPaused s \<and> isGameOver s' = isGameOver s
     \<and> cameraX s' = cameraX s \<and> maxDistanceX s' = maxDistanceX s \<and> lastTime s' = lastTime s
     \<and> projectionMode s' = projectionMode s \<and> cameraMode s' = cameraMode s
     \<and> frameCount s' = frameCount s \<and> scoreText s' = scoreText s
     \<and> finalScoreText s' = finalScoreText s \<and> modalHidden s' = modalHidden s
     \<and> pauseBtnText s' = pauseBtnText s"

text \<open>The fields that they do write.\<close>

definition world :: "game \<Rightarrow> nat \<times> tree list \<times> car list \<times> row list" where
  "world s = (draws s, trees s, cars s, terrainRows s)"

text \<open>The score the formula of \<open>drawScene\<close> gives for the furthest position reached.\<close>

definition score :: "game \<Rightarrow> int" where
  "score s = \<lfloor>(maxDistanceX s - initialX) / step\<rfloor>"

definition car_in_bounds :: "car \<Rightarrow> bool" where
  "car_in_bounds c = (car_minZ c \<le> car_z c \<and> car_z c \<le> car_maxZ c)"

text \<open>The signed speed of a car, and the test that makes it skip its move in a frame.\<close>

definition velocity :: "car \<Rightarrow> real" where
  "velocity c = num (car_speed c) * num (car_direction c)"

definition wouldCollide :: "real \<Rightarrow> car list \<Rightarrow> car \<Rightarrow> bool" where
  "wouldCollide dt others c =
     list_ex (\<lambda>otherCar. car_x otherCar = car_x c
                \<and> \<bar>car_z otherCar - (car_z c + num (car_speed c) * num (car_direction c) * dt)\<bar> < 2)
       others"

definition lanes_sorted :: "game \<Rightarrow> bool" where
  "lanes_sorted s = sorted_wrt (<) (map row_x (terrainRows s))"

text \<open>What \<open>spawnCarsOnRow\<close> gives a new car: the lane bounds and a drawn lateral position.\<close>

definition spawned_car :: "(nat \<Rightarrow> real) \<Rightarrow> car \<Rightarrow> bool" where
  "spawned_car rng c \<longleftrightarrow>
     car_minZ c = - 15 \<and> car_maxZ c = 15 \<and> (\<exists>n. car_z c = rng n * 30 - 15)"

text \<open>Every draw is a value of \<open>Math.random()\<close>: in \<open>[0, 1)\<close>.\<close>

definition rng_ok :: "(nat \<Rightarrow> real) \<Rightarrow> bool" where
  "rng_ok rng = (\<forall>n. 0 \<le> rng n \<and> rng n < 1)"

text \<open>Two draw sequences agree from the \<open>k\<close>-th draw on.\<close>

definition agree :: "(nat \<Rightarrow> real) \<Rightarrow> (nat \<Rightarrow> real) \<Rightarrow> nat \<Rightarrow> bool" where
  "agree rng rng' k = (\<forall>n\<ge>k. rng n = rng' n)"

text \<open>Every frame of the run that simulates has a delta-time of at least 0.\<close>

fun forward :: "(nat \<Rightarrow> real) \<Rightarrow> game \<Rightarrow> event list \<Rightarrow> bool" where
  "forward rng s [] = True"
| "forward rng s (Tick time aspect # es) =
     ((isPaused s \<or> 0 \<le> dt_of time s) \<and> forward rng (drawScene rng time aspect s) es)"
| "forward rng s (e # es) = forward rng (handle rng s e) es"

text \<open>
  \<open>in_band lo hi s\<close>: every tree and car has its lane-axis coordinate in \<open>[lo, hi)\<close>.
  \<open>in_window s\<close> is the band the code keeps: from 15 behind the scroll position to less
  than one row beyond \<open>DRAW_DISTANCE\<close> ahead of it.
\<close>

definition in_band :: "real \<Rightarrow> real \<Rightarrow> game \<Rightarrow> bool" where
  "in_band lo hi s =
     (list_all (\<lambda>t. lo \<le> tree_x t \<and> tree_x t < hi) (trees s)
      \<and> list_all (\<lambda>c. lo \<le> car_x c \<and> car_x c < hi) (cars s))"

definition in_window :: "game \<Rightarrow> bool" where
  "in_window s = in_band (cameraX s - 15) (cameraX s + real_of_int DRAW_DISTANCE + ROW_DEPTH) s"

text \<open>
  \<open>lane_kept rng s es\<close>: in every simulating frame of the run the delta-time is at least
  0 and the furthest lane is not evicted, that is, it is not more than 15 behind the
  scroll position that frame reaches.
\<close>

fun lane_kept :: "(nat \<Rightarrow> real) \<Rightarrow> game \<Rightarrow> event list \<Rightarrow> bool" where
  "lane_kept rng s [] = True"
| "lane_kept rng s (Tick time aspect # es) =
     ((isPaused s \<or>
         (0 \<le> dt_of time s \<and> terrainRows s \<noteq> []
          \<and> cameraX (drawScene rng time aspect s) - 15 \<le> row_x (last (terrainRows s))))
      \<and> lane_kept rng (drawScene rng time aspect s) es)"
| "lane_kept rng s (e # es) = lane_kept rng (handle rng s e) es"

section \<open>Concrete inputs\<close>

text \<open>A draw sequence that always yields 0.2, and a page showing score 0 with the modal hidden.\<close>

definition draws_fifth :: "nat \<Rightarrow> real" where
  "draws_fifth n = 2 / 10"

definition page0 :: page where
  "page0 = \<lparr>page_score = 0, page_finalScore = 0, page_modalHidden = True,
            page_pauseBtn = ''PAUSE''\<rparr>"

text \<open>The player at the start pose with one tree on the cell ahead; a car about to pass
  its upper lane bound; the player on the leftmost lateral cell.\<close>

definition one_tree_ahead :: game where
  "one_tree_ahead = (globals page0)\<lparr>trees := [\<lparr>tree_x = - 4, tree_y = 0, tree_z = 0,
      tree_scale = 8 / 10, tree_modelIndex = 8\<rparr>]\<rparr>"

text \<open>
  Two frames, 16 ms apart, from the start state with no input; and the same second frame
  run in the order the specification gives. \<open>probe\<close> reads the scroll position, the
  furthest lane and the car spawned last.
\<close>

definition one_frame :: game where
  "one_frame = drawScene draws_fifth 16 1 (start draws_fifth page0)"

definition two_frames :: game where
  "two_frames = drawScene draws_fifth 32 1 one_frame"

definition spec_frame :: game where
  "spec_frame = tick_spec_order draws_fifth 32 1 one_frame"

definition probe :: "game \<Rightarrow> bool \<times> bool \<times> real \<times> bool \<times> real \<times> bool \<times> real \<times> real" where
  "probe s = (isPaused s, isGameOver s, cameraX s,
              terrainRows s \<noteq> [], row_x (last (terrainRows s)),
              cars s \<noteq> [], car_x (last (cars s)), car_z (last (cars s)))"

text \<open>A second frame that comes 20 seconds after the first: the scroll has outrun the player.\<close>

definition late_frame :: game where
  "late_frame = drawScene draws_fifth 20016 1 one_frame"

text \<open>A draw sequence that differs from \<open>draws_fifth\<close> only in draws already made at count 5.\<close>

definition draws_late :: "nat \<Rightarrow> real" where
  "draws_late n = (if n < 5 then 0 else 2 / 10)"

definition car_near_edge :: car where
  "car_near_edge = \<lparr>car_x = 3, car_y = 0, car_z = 149 / 10, car_speed = Some 5,
      car_direction = Some 1, car_minZ = - 15, car_maxZ = 15, car_scale = 6 / 10,
      car_modelIndex = 0\<rparr>"

definition at_left_edge :: game where
  "at_left_edge = (globals page0)\<lparr>player := (player (globals page0))\<lparr>p_z := - 8\<rparr>\<rparr>"

section \<open>Movement keys\<close>

lemma checkCollisionWithTrees_iff:
  "checkCollisionWithTrees s x z = (\<exists>t \<in> set (trees s). near_tree t (x, z))"
  by (simp add: checkCollisionWithTrees_def near_tree_def list_ex_iff)

text \<open>
  C1. A movement key whose proposed position lies within the tree proximity predicate of
  some live tree leaves the player's position (lane axis and lateral) unchanged.
\<close>

theorem tree_blocks_move:
  assumes "toLowerCase key = intent_key i"
    and "t \<in> set (trees s)" and "near_tree t (target i (player s))"
  shows "p_x (player (keyDown repeat key s)) = p_x (player s)
       \<and> p_z (player (keyDown repeat key s)) = p_z (player s)"
proof -
  have "checkCollisionWithTrees s (fst (target i (player s))) (snd (target i (player s)))"
    using assms(2,3) by (auto simp: checkCollisionWithTrees_iff)
  then show ?thesis using assms(1)
    by (cases i) (simp_all add: keyDown_def Let_def)
qed

theorem tree_blocks_move_witness:
  "\<not> isPaused one_tree_ahead
   \<and> checkCollisionWithTrees one_tree_ahead (- 4) 0
   \<and> p_x (player (keyDown False ''W'' one_tree_ahead)) = - 5
   \<and> p_z (player (keyDown False ''W'' one_tree_ahead)) = 0"
proof -
  let ?t = "\<lparr>tree_x = - 4, tree_y = 0, tree_z = 0, tree_scale = 8 / 10, tree_modelIndex = 8\<rparr>"
  have k: "toLowerCase ''W'' = intent_key MoveForward" by code_simp
  have m: "?t \<in> set (trees one_tree_ahead)"
    by (simp add: one_tree_ahead_def)
  have n: "near_tree ?t (target MoveForward (player one_tree_ahead))"
    by (simp add: one_tree_ahead_def globals_def near_tree_def step_def)
  have p: "p_x (player one_tree_ahead) = - 5" "p_z (player one_tree_ahead) = 0"
    "\<not> isPaused one_tree_ahead"
    by (simp_all add: one_tree_ahead_def globals_def)
  have c: "checkCollisionWithTrees one_tree_ahead (- 4) 0"
    by (simp add: checkCollisionWithTrees_def one_tree_ahead_def)
  from tree_blocks_move [OF k m n, of False] p c show ?thesis by simp
qed

text \<open>
  C10. While not paused, a movement key (not an auto-repeat) sets the heading to the
  direction of the attempted move whether or not the move is applied; when the tree test
  or the lateral bound test vetoes it, the position stays as it was.
\<close>

theorem heading_set_even_if_vetoed:
  assumes "\<not> isPaused s" and "toLowerCase key = intent_key i"
  shows "p_rotationY (player (keyDown False key s)) = heading i
       \<and> ((checkCollisionWithTrees s (fst (target i (player s))) (snd (target i (player s)))
            \<or> beyond_bound i (player s))
          \<longrightarrow> p_x (player (keyDown False key s)) = p_x (player s)
            \<and> p_z (player (keyDown False key s)) = p_z (player s))"
  using assms by (cases i) (auto simp add: keyDown_def Let_def)

theorem heading_set_even_if_vetoed_witness:
  "\<not> isPaused at_left_edge \<and> beyond_bound StrafeLeft (player at_left_edge)
   \<and> p_rotationY (player at_left_edge) = 90
   \<and> p_rotationY (player (keyDown False ''a'' at_left_edge)) = 180
   \<and> p_x (player (keyDown False ''a'' at_left_edge)) = - 5
   \<and> p_z (player (keyDown False ''a'' at_left_edge)) = - 8"
proof -
  have k: "toLowerCase ''a'' = intent_key StrafeLeft" by code_simp
  have p: "\<not> isPaused at_left_edge" "beyond_bound StrafeLeft (player at_left_edge)"
    "p_x (player at_left_edge) = - 5" "p_z (player at_left_edge) = - 8"
    "p_rotationY (player at_left_edge) = 90"
    by (simp_all add: at_left_edge_def globals_def step_def TERRAIN_WIDTH_def)
  from heading_set_even_if_vetoed [OF p(1) k] p show ?thesis by simp
qed

section \<open>What the world window leaves alone\<close>

lemma same_session_refl: "same_session s s"
  by (simp add: same_session_def)

lemma same_session_upd:
  "same_session s0 (s\<lparr>draws := d\<rparr>) = same_session s0 s"
  "same_session s0 (s\<lparr>trees := ts\<rparr>) = same_session s0 s"
  "same_session s0 (s\<lparr>cars := cs\<rparr>) = same_session s0 s"
  "same_session s0 (s\<lparr>terrainRows := rs\<rparr>) = same_session s0 s"
  by (simp_all add: same_session_def)

lemma spawnTrees_loop_session:
  "same_session s0 s \<Longrightarrow> same_session s0 (spawnTrees_loop rng r zs s)"
  by (induction zs arbitrary: s) (simp_all add: Let_def same_session_upd)

lemma spawnTreesOnRow_session:
  "same_session s0 s \<Longrightarrow> same_session s0 (spawnTreesOnRow rng r s)"
  by (simp add: spawnTreesOnRow_def Let_def spawnTrees_loop_session)

lemma spawnCars_loop_session:
  "same_session s0 s \<Longrightarrow> same_session s0 (spawnCars_loop rng r k s)"
  by (induction k arbitrary: s) (simp_all add: Let_def same_session_upd)

lemma spawnCarsOnRow_session:
  "same_session s0 s \<Longrightarrow> same_session s0 (spawnCarsOnRow rng r s)"
  by (simp add: spawnCarsOnRow_def Let_def spawnCars_loop_session same_session_upd)

lemma addRow_session: "same_session s0 s \<Longrightarrow> same_session s0 (addRow rng x s)"
  by (simp add: addRow_def Let_def spawnCarsOnRow_session spawnTreesOnRow_session
        same_session_upd split: prod.splits)

lemma initTerrain_loop_session:
  "same_session s0 s \<Longrightarrow> same_session s0 (initTerrain_loop rng startX js s)"
  by (induction js arbitrary: s) (simp_all add: addRow_session)

lemma initTerrain_session: "same_session s (initTerrain rng startX s)"
  by (simp add: initTerrain_def initTerrain_loop_session same_session_refl)

lemma extend_loop_session:
  "same_session s0 s \<Longrightarrow> same_session s0 (extend_loop rng thr lastX s)"
proof (induction rng thr lastX s rule: extend_loop.induct)
  case (1 rng thr lastX s)
  show ?case
  proof (cases "lastX < thr")
    case True
    with 1 show ?thesis
      by (subst extend_loop.simps) (simp add: addRow_session)
  next
    case False
    with 1 show ?thesis by (subst extend_loop.simps) simp
  qed
qed

lemma updateTerrain_session: "same_session s (updateTerrain rng c s)"
  by (simp add: updateTerrain_def Let_def extend_loop_session same_session_upd same_session_refl)

lemma windowUpdate_session: "same_session s (windowUpdate rng s)"
  by (simp add: windowUpdate_def updateTerrain_session)

section \<open>The running frame as a composition of its phases\<close>

lemma drawScene_paused: "isPaused s \<Longrightarrow> drawScene rng time aspect s = s\<lparr>lastTime := Some time\<rparr>"
  by (simp add: drawScene_def)

lemma drawScene_phases:
  "\<not> isPaused s \<Longrightarrow> drawScene rng time aspect s = tick_code_order rng time aspect s"
  unfolding drawScene_def tick_code_order_def clockAdvance_def scoreUpdate_def
      scrollAdvance_def leftBehindCheck_def leftBehind_def cameraPull_def trafficMove_def
      carCollisionCheck_def carHit_def windowUpdate_def frameDone_def comp_def Let_def
  by (simp only: if_False)

lemma gameOver_flags: "isPaused (gameOver s)" "isGameOver (gameOver s)"
  by (simp_all add: gameOver_def)

section \<open>Left behind\<close>

lemma drawScene_left_behind:
  assumes "\<not> isPaused s"
    and "p_x (player s) < (cameraX s + scrollSpeed * dt_of time s) + 38 / 10"
  shows "isPaused (drawScene rng time aspect s) \<and> isGameOver (drawScene rng time aspect s)"
proof -
  define a where "a = leftBehindCheck (scrollAdvance (dt_of time s) (scoreUpdate (clockAdvance time s)))"
  define b where "b = carCollisionCheck (trafficMove (dt_of time s) (cameraPull aspect a))"
  have "leftBehind (scrollAdvance (dt_of time s) (scoreUpdate (clockAdvance time s)))"
    using assms(2)
    by (simp add: leftBehind_def scrollAdvance_def scoreUpdate_def clockAdvance_def)
  then have "isPaused a \<and> isGameOver a"
    by (simp add: a_def leftBehindCheck_def gameOver_flags)
  then have "isPaused b \<and> isGameOver b"
    by (simp add: b_def carCollisionCheck_def gameOver_flags trafficMove_def cameraPull_def Let_def)
  moreover have "same_session b (windowUpdate rng b)"
    by (rule windowUpdate_session)
  moreover have "drawScene rng time aspect s = frameDone (windowUpdate rng b)"
    using assms(1) by (simp add: drawScene_phases tick_code_order_def a_def b_def Let_def)
  ultimately show ?thesis
    by (simp add: frameDone_def same_session_def)
qed

text \<open>
  C2. In a frame that simulates, when the player's lane-axis coordinate is behind the
  advanced scroll position plus 3.8, the frame ends with the session game over (both
  \<open>isPaused\<close> and \<open>isGameOver\<close> set).
\<close>

theorem left_behind_game_over:
  assumes "\<not> isPaused s"
    and "p_x (player s) < (cameraX s + scrollSpeed * dt_of time s) + 38 / 10"
  shows "isPaused (drawScene rng time aspect s) \<and> isGameOver (drawScene rng time aspect s)"
  using assms by (rule drawScene_left_behind)

theorem left_behind_game_over_witness:
  "\<not> isPaused ((globals page0)\<lparr>cameraX := - 8\<rparr>)
   \<and> isPaused (drawScene draws_fifth 16 1 ((globals page0)\<lparr>cameraX := - 8\<rparr>))
   \<and> isGameOver (drawScene draws_fifth 16 1 ((globals page0)\<lparr>cameraX := - 8\<rparr>))"
proof -
  let ?s = "(globals page0)\<lparr>cameraX := - 8\<rparr>"
  have a: "\<not> isPaused ?s" by (simp add: globals_def)
  have b: "p_x (player ?s) < (cameraX ?s + scrollSpeed * dt_of 16 ?s) + 38 / 10"
    by (simp add: globals_def dt_of_def scrollSpeed_def)
  from left_behind_game_over [OF a b, of draws_fifth 1] a show ?thesis by simp
qed

section \<open>Lane generator\<close>

text \<open>
  C9 (as the code has it). A row created at or behind the spawn coordinate \<open>-5\<close> is a
  grass row whatever the draws are; a road row is only created ahead of it, and ahead of
  it a row is a road exactly when the draw is below 0.4. There is no safety distance
  ahead of the spawn coordinate.
\<close>

theorem safe_zone_is_grass:
  "(x \<le> - 5 \<longrightarrow> row_type (fst (createRow rng x n)) = Grass)
   \<and> (row_type (fst (createRow rng x n)) = Road \<longrightarrow> - 5 < x \<and> rng n < 4 / 10)
   \<and> (- 5 < x \<and> rng n < 4 / 10 \<longrightarrow> row_type (fst (createRow rng x n)) = Road)"
  by (simp add: createRow_def Let_def split: prod.splits if_splits)

theorem safe_zone_is_grass_witness:
  "row_type (fst (createRow draws_fifth (- 5) 0)) = Grass
   \<and> - 5 < (3::real) \<and> draws_fifth 0 < 4 / 10
   \<and> row_type (fst (createRow draws_fifth 3 0)) = Road"
proof -
  have d: "draws_fifth 0 < 4 / 10" by (simp add: draws_fifth_def)
  from safe_zone_is_grass [of "- 5" draws_fifth 0] safe_zone_is_grass [of 3 draws_fifth 0] d
  show ?thesis by simp
qed

text \<open>
  C9 as stated fails. The lane at \<open>-4\<close> is one step from the spawn coordinate \<open>-5\<close>, inside
  the distance 3 that \<open>spawnTreesOnRow\<close> keeps clear around it, and with the draw 0.2 it is
  a road.
\<close>

theorem safety_distance_counterexample:
  "\<bar>- 4 - (- 5)\<bar> = step
   \<and> \<bar>- 4 - (- 5) :: real\<bar> < 3
   \<and> row_type (fst (createRow draws_fifth (- 4) 0)) = Road"
  by (simp add: createRow_def draws_fifth_def step_def)

section \<open>Score\<close>

lemma score_mono: "maxDistanceX s \<le> maxDistanceX s' \<Longrightarrow> score s \<le> score s'"
  by (simp add: score_def step_def floor_mono)

lemma maxDistanceX_tick:
  "\<not> isPaused s \<Longrightarrow>
   maxDistanceX (drawScene rng time aspect s) = max (maxDistanceX s) (p_x (player s))"
proof -
  assume np: "\<not> isPaused s"
  define a where "a = scoreUpdate (clockAdvance time s)"
  define b where "b = carCollisionCheck (trafficMove (dt_of time s) (cameraPull aspect
      (leftBehindCheck (scrollAdvance (dt_of time s) a))))"
  have 1: "maxDistanceX a = max (maxDistanceX s) (p_x (player s))"
    by (simp add: a_def scoreUpdate_def clockAdvance_def)
  have 2: "maxDistanceX b = maxDistanceX a"
    by (simp add: b_def carCollisionCheck_def trafficMove_def cameraPull_def Let_def
        leftBehindCheck_def scrollAdvance_def gameOver_def)
  have 3: "drawScene rng time aspect s = frameDone (windowUpdate rng b)"
    using np by (simp add: drawScene_phases tick_code_order_def a_def b_def Let_def)
  have "same_session b (windowUpdate rng b)" by (rule windowUpdate_session)
  then show ?thesis
    by (simp add: 1 2 3 frameDone_def same_session_def)
qed

lemma scoreText_tick:
  assumes "\<not> isPaused s" and "scoreText s = score s"
  shows "scoreText (drawScene rng time aspect s) = score (drawScene rng time aspect s)"
proof -
  define a where "a = scoreUpdate (clockAdvance time s)"
  define b where "b = carCollisionCheck (trafficMove (dt_of time s) (cameraPull aspect
      (leftBehindCheck (scrollAdvance (dt_of time s) a))))"
  have 1: "scoreText a = score a"
    using assms(2) by (simp add: a_def scoreUpdate_def clockAdvance_def score_def)
  have 2: "maxDistanceX b = maxDistanceX a" "scoreText b = scoreText a"
    by (simp_all add: b_def carCollisionCheck_def trafficMove_def cameraPull_def Let_def
        leftBehindCheck_def scrollAdvance_def gameOver_def)
  have 3: "drawScene rng time aspect s = frameDone (windowUpdate rng b)"
    using assms(1) by (simp add: drawScene_phases tick_code_order_def a_def b_def Let_def)
  have "same_session b (windowUpdate rng b)" by (rule windowUpdate_session)
  then show ?thesis
    using 1 2 by (simp add: 3 frameDone_def same_session_def score_def)
qed

lemma handle_score:
  assumes "e \<noteq> RestartClick"
  shows "maxDistanceX s \<le> maxDistanceX (handle rng s e)
       \<and> (scoreText s = score s \<longrightarrow> scoreText (handle rng s e) = score (handle rng s e))"
proof (cases e)
  case (Tick time aspect)
  show ?thesis
  proof (cases "isPaused s")
    case True
    then show ?thesis by (simp add: Tick drawScene_paused score_def)
  next
    case False
    then show ?thesis
      using scoreText_tick [OF False, of rng time aspect]
      by (simp add: Tick maxDistanceX_tick)
  qed
next
  case (KeyDown repeat key)
  then show ?thesis by (simp add: keyDown_def Let_def score_def)
next
  case PauseClick
  then show ?thesis by (simp add: pauseClick_def Let_def score_def)
next
  case RestartClick
  with assms show ?thesis by simp
qed

lemma run_score:
  "RestartClick \<notin> set es \<Longrightarrow>
   maxDistanceX s \<le> maxDistanceX (run rng s es)
   \<and> (scoreText s = score s \<longrightarrow> scoreText (run rng s es) = score (run rng s es))"
proof (induction es arbitrary: s)
  case Nil
  show ?case by (simp add: run_def)
next
  case (Cons e es)
  from Cons.prems have ne: "e \<noteq> RestartClick" and rest: "RestartClick \<notin> set es" by auto
  have r: "run rng s (e # es) = run rng (handle rng s e) es" by (simp add: run_def)
  from handle_score [OF ne, of s rng] Cons.IH [OF rest, of "handle rng s e"]
  show ?case unfolding r by auto
qed

lemma restartGame_score:
  "maxDistanceX (restartGame rng s) = initialX \<and> scoreText (restartGame rng s) = 0"
proof -
  define s1 where "s1 = s\<lparr>isPaused := False, isGameOver := False,
                 player := (player s)\<lparr>p_x := - 5, p_z := 0, p_rotationY := 90\<rparr>,
                 cameraX := - 12,
                 maxDistanceX := initialX, scoreText := 0,
                 trees := [], cars := [], terrainRows := []\<rparr>"
  have "same_session s1 (initTerrain rng (- 12) s1)" by (rule initTerrain_session)
  then have "maxDistanceX (initTerrain rng (- 12) s1) = initialX \<and> scoreText (initTerrain rng (- 12) s1) = 0"
    by (simp add: same_session_def s1_def)
  then show ?thesis by (simp add: restartGame_def Let_def s1_def)
qed

text \<open>
  C4. Across any sequence of events without a restart the score computed from the
  furthest position reached never decreases, and the displayed score text keeps equal to
  it once it is (so it never decreases either); right after a restart the furthest
  position is the initial lane-axis coordinate and both the score and the text are 0.
\<close>

theorem score_monotone_and_reset:
  "(RestartClick \<notin> set es \<longrightarrow>
      score s \<le> score (run rng s es)
      \<and> (scoreText s = score s \<longrightarrow>
           scoreText (run rng s es) = score (run rng s es) \<and> scoreText s \<le> scoreText (run rng s es)))
   \<and> maxDistanceX (restartGame rng s) = initialX
   \<and> score (restartGame rng s) = 0
   \<and> scoreText (restartGame rng s) = 0"
proof -
  have a: "score s \<le> score (run rng s es)" if "RestartClick \<notin> set es"
    using run_score [OF that, of s rng] by (simp add: score_mono)
  have b: "scoreText (run rng s es) = score (run rng s es)"
    if "RestartClick \<notin> set es" "scoreText s = score s"
    using run_score [OF that(1), of s rng] that(2) by simp
  have c: "score (restartGame rng s) = 0"
    using restartGame_score [of rng s] by (simp add: score_def)
  show ?thesis using a b c restartGame_score [of rng s] by auto
qed

theorem score_monotone_and_reset_witness:
  "scoreText (globals page0) = score (globals page0)
   \<and> score (globals page0) = 0
   \<and> score (run draws_fifth (globals page0) [KeyDown False ''w'', Tick 16 1]) = 1
   \<and> scoreText (run draws_fifth (globals page0) [KeyDown False ''w'', Tick 16 1]) = 1
   \<and> score (restartGame draws_fifth (globals page0)) = 0"
proof -
  let ?g = "globals page0"
  let ?es = "[KeyDown False ''w'', Tick 16 1]"
  have lw: "toLowerCase ''w'' = ''w''" by code_simp
  have k: "p_x (player (keyDown False ''w'' ?g)) = - 4" "\<not> isPaused (keyDown False ''w'' ?g)"
    "maxDistanceX (keyDown False ''w'' ?g) = - 5"
    by (simp_all add: keyDown_def lw globals_def page0_def checkCollisionWithTrees_def step_def
        initialX_def)
  have "maxDistanceX (run draws_fifth ?g ?es) = - 4"
    using maxDistanceX_tick [OF k(2), of draws_fifth 16 1] k by (simp add: run_def)
  then have s1: "score (run draws_fifth ?g ?es) = 1"
    by (simp add: score_def initialX_def step_def)
  have s0: "score ?g = 0" "scoreText ?g = 0"
    by (simp_all add: score_def globals_def page0_def step_def)
  have nr: "RestartClick \<notin> set ?es" by simp
  from score_monotone_and_reset [of ?es ?g draws_fifth] nr s0 s1 show ?thesis by simp
qed

section \<open>Lanes stay sorted\<close>

lemma createRow_x: "row_x (fst (createRow rng x n)) = x"
  by (simp add: createRow_def Let_def split: prod.splits)

lemma spawnTrees_loop_rows: "terrainRows (spawnTrees_loop rng r zs s) = terrainRows s"
  by (induction zs arbitrary: s) (simp_all add: Let_def)

lemma spawnCars_loop_rows: "terrainRows (spawnCars_loop rng r k s) = terrainRows s"
  by (induction k arbitrary: s) (simp_all add: Let_def)

lemma addRow_rows:
  "terrainRows (addRow rng x s) = terrainRows s @ [fst (createRow rng x (draws s))]"
  by (simp add: addRow_def Let_def spawnTreesOnRow_def spawnCarsOnRow_def
      spawnTrees_loop_rows spawnCars_loop_rows split: prod.splits)

lemma addRow_row_xs:
  "map row_x (terrainRows (addRow rng x s)) = map row_x (terrainRows s) @ [x]"
  by (simp add: addRow_rows createRow_x)

lemma initTerrain_loop_row_xs:
  "map row_x (terrainRows (initTerrain_loop rng startX js s))
   = map row_x (terrainRows s) @ map (\<lambda>i. startX + real_of_int i * ROW_DEPTH) js"
  by (induction js arbitrary: s) (simp_all add: addRow_row_xs)

lemma initTerrain_sorted:
  assumes "terrainRows s = []"
  shows "lanes_sorted (initTerrain rng startX s)"
proof -
  have "sorted_wrt (<) [- 10 .. DRAW_DISTANCE - 1]"
    by (simp add: strict_sorted_iff)
  then have "sorted_wrt (<) (map (\<lambda>i. startX + real_of_int i * ROW_DEPTH) [- 10 .. DRAW_DISTANCE - 1])"
    by (simp add: sorted_wrt_map ROW_DEPTH_def)
  then show ?thesis
    using assms by (simp add: lanes_sorted_def initTerrain_def initTerrain_loop_row_xs)
qed

lemma extend_loop_sorted:
  "sorted_wrt (<) (map row_x (terrainRows s)) \<Longrightarrow>
   \<forall>r \<in> set (terrainRows s). row_x r \<le> lastX \<Longrightarrow>
   sorted_wrt (<) (map row_x (terrainRows (extend_loop rng thr lastX s)))"
proof (induction rng thr lastX s rule: extend_loop.induct)
  case (1 rng thr lastX s)
  show ?case
  proof (cases "lastX < thr")
    case True
    let ?s = "addRow rng (lastX + ROW_DEPTH) s"
    have a: "sorted_wrt (<) (map row_x (terrainRows ?s))"
      using "1.prems" by (auto simp: addRow_row_xs sorted_wrt_append ROW_DEPTH_def)
    have b: "\<forall>r \<in> set (terrainRows ?s). row_x r \<le> lastX + ROW_DEPTH"
      using "1.prems"(2) by (auto simp: addRow_rows createRow_x ROW_DEPTH_def)
    from "1.IH" [OF True a b] True show ?thesis
      by (subst extend_loop.simps) simp
  next
    case False
    with "1.prems" show ?thesis by (subst extend_loop.simps) simp
  qed
qed

lemma sorted_le_last:
  fixes xs :: "real list"
  shows "sorted_wrt (<) xs \<Longrightarrow> x \<in> set xs \<Longrightarrow> x \<le> last xs"
  by (induction xs) (auto simp: less_imp_le)

lemma updateTerrain_sorted:
  assumes "lanes_sorted s"
  shows "lanes_sorted (updateTerrain rng c s)"
proof -
  define rows1 where "rows1 = dropWhile (\<lambda>r. row_x r < c - 15) (terrainRows s)"
  define s1 where "s1 = s\<lparr>terrainRows := rows1,
                 trees := filter (\<lambda>t. tree_x t \<ge> c - 15) (trees s),
                 cars := filter (\<lambda>c'. car_x c' \<ge> c - 15) (cars s)\<rparr>"
  define lastX where "lastX = (if rows1 \<noteq> [] then row_x (last rows1) else 0)"
  have "sorted_wrt (\<lambda>a b. row_x a < row_x b) (terrainRows s)"
    using assms by (simp add: lanes_sorted_def sorted_wrt_map)
  then have "sorted_wrt (\<lambda>a b. row_x a < row_x b) rows1"
    unfolding rows1_def by (rule sorted_wrt_dropWhile)
  then have a: "sorted_wrt (<) (map row_x (terrainRows s1))"
    by (simp add: s1_def sorted_wrt_map)
  have b: "\<forall>r \<in> set (terrainRows s1). row_x r \<le> lastX"
  proof
    fix r assume "r \<in> set (terrainRows s1)"
    then have r: "r \<in> set rows1" by (simp add: s1_def)
    then have ne: "rows1 \<noteq> []" by auto
    from a have "sorted_wrt (<) (map row_x rows1)" by (simp add: s1_def)
    moreover from r have "row_x r \<in> set (map row_x rows1)" by simp
    ultimately have "row_x r \<le> last (map row_x rows1)" by (rule sorted_le_last)
    with ne show "row_x r \<le> lastX" by (simp add: lastX_def last_map)
  qed
  have "updateTerrain rng c s = extend_loop rng (c + real_of_int DRAW_DISTANCE) lastX s1"
    by (simp add: updateTerrain_def Let_def rows1_def s1_def lastX_def)
  with extend_loop_sorted [OF a b] show ?thesis by (simp add: lanes_sorted_def)
qed

lemma restartGame_sorted: "lanes_sorted (restartGame rng s)"
proof -
  have "lanes_sorted (initTerrain rng (- 12) (s\<lparr>isPaused := False, isGameOver := False,
                 player := (player s)\<lparr>p_x := - 5, p_z := 0, p_rotationY := 90\<rparr>,
                 cameraX := - 12,
                 maxDistanceX := initialX, scoreText := 0,
                 trees := [], cars := [], terrainRows := []\<rparr>))"
    by (rule initTerrain_sorted) simp
  then show ?thesis by (simp add: restartGame_def Let_def lanes_sorted_def)
qed

lemma start_sorted: "lanes_sorted (start rng pg)"
  unfolding start_def by (rule initTerrain_sorted) (simp add: globals_def)

lemma drawScene_sorted:
  assumes "lanes_sorted s"
  shows "lanes_sorted (drawScene rng time aspect s)"
proof (cases "isPaused s")
  case True
  with assms show ?thesis by (simp add: drawScene_paused lanes_sorted_def)
next
  case False
  define b where "b = carCollisionCheck (trafficMove (dt_of time s) (cameraPull aspect
      (leftBehindCheck (scrollAdvance (dt_of time s) (scoreUpdate (clockAdvance time s))))))"
  have "terrainRows b = terrainRows s"
    by (simp add: b_def carCollisionCheck_def trafficMove_def cameraPull_def Let_def
        leftBehindCheck_def scrollAdvance_def gameOver_def scoreUpdate_def clockAdvance_def)
  with assms have "lanes_sorted b" by (simp add: lanes_sorted_def)
  then have "lanes_sorted (windowUpdate rng b)"
    unfolding windowUpdate_def by (rule updateTerrain_sorted)
  moreover have "drawScene rng time aspect s = frameDone (windowUpdate rng b)"
    using False by (simp add: drawScene_phases tick_code_order_def b_def Let_def)
  ultimately show ?thesis by (simp add: frameDone_def lanes_sorted_def)
qed

lemma handle_sorted: "lanes_sorted s \<Longrightarrow> lanes_sorted (handle rng s e)"
proof (cases e)
  case (Tick time aspect)
  assume "lanes_sorted s"
  then show ?thesis by (simp add: Tick drawScene_sorted)
next
  case (KeyDown repeat key)
  assume "lanes_sorted s"
  then show ?thesis by (simp add: KeyDown keyDown_def Let_def lanes_sorted_def)
next
  case PauseClick
  assume "lanes_sorted s"
  then show ?thesis by (simp add: PauseClick pauseClick_def Let_def lanes_sorted_def)
next
  case RestartClick
  then show ?thesis by (simp add: restartGame_sorted)
qed

lemma run_sorted: "lanes_sorted s \<Longrightarrow> lanes_sorted (run rng s es)"
  unfolding run_def by (induction es arbitrary: s) (simp_all add: handle_sorted)

lemma updates_sorted:
  "lanes_sorted s \<Longrightarrow> lanes_sorted (foldl (\<lambda>s c. updateTerrain rng c s) s cs)"
  by (induction cs arbitrary: s) (simp_all add: updateTerrain_sorted)

text \<open>
  C6. The lane list is strictly increasing in the lane-axis coordinate (sorted, no two
  lanes at one coordinate) after \<open>initTerrain\<close> from an empty list, after any number of
  \<open>updateTerrain\<close> calls at any scroll positions that follow it, after a restart, and in
  every state a run of events reaches from the start state.
\<close>

theorem lanes_stay_sorted:
  "lanes_sorted (initTerrain rng startX ((globals pg)\<lparr>draws := n\<rparr>))
   \<and> lanes_sorted (foldl (\<lambda>s c. updateTerrain rng c s) (start rng pg) cs)
   \<and> lanes_sorted (restartGame rng s)
   \<and> lanes_sorted (run rng (start rng pg) es)"
proof -
  have "lanes_sorted (initTerrain rng startX ((globals pg)\<lparr>draws := n\<rparr>))"
    by (rule initTerrain_sorted) (simp add: globals_def)
  then show ?thesis
    by (simp add: updates_sorted run_sorted start_sorted restartGame_sorted)
qed

theorem lanes_stay_sorted_witness:
  "lanes_sorted (restartGame draws_fifth (globals page0))
   \<and> lanes_sorted (run draws_fifth (start draws_fifth page0) [Tick 16 1, RestartClick, Tick 32 1])"
  using lanes_stay_sorted [where rng = draws_fifth and pg = page0 and s = "globals page0"
      and es = "[Tick 16 1, RestartClick, Tick 32 1]"]
  by simp

section \<open>Where trees and cars come from\<close>

lemma spawnTrees_loop_cars: "cars (spawnTrees_loop rng r zs s) = cars s"
  by (induction zs arbitrary: s) (simp_all add: Let_def)

lemma spawnCars_loop_trees: "trees (spawnCars_loop rng r k s) = trees s"
  by (induction k arbitrary: s) (simp_all add: Let_def)

lemma spawnTrees_loop_trees:
  "t \<in> set (trees (spawnTrees_loop rng r zs s)) \<Longrightarrow> t \<in> set (trees s) \<or> tree_x t = row_x r"
proof (induction zs arbitrary: s)
  case Nil
  then show ?case by simp
next
  case (Cons z zs)
  from Cons.prems show ?case
    by (auto simp add: Let_def split: if_splits dest!: Cons.IH)
qed

lemma spawnCars_loop_cars:
  "c \<in> set (cars (spawnCars_loop rng r k s)) \<Longrightarrow>
   c \<in> set (cars s) \<or> (car_x c = row_x r \<and> spawned_car rng c)"
proof (induction k arbitrary: s)
  case 0
  then show ?case by simp
next
  case (Suc k)
  have new_ok: "spawned_car rng \<lparr>car_x = x, car_y = y,
        car_z = rng n * (real_of_int (TERRAIN_WIDTH div 2) * 2) - real_of_int (TERRAIN_WIDTH div 2),
        car_speed = v, car_direction = d,
        car_minZ = - real_of_int (TERRAIN_WIDTH div 2),
        car_maxZ = real_of_int (TERRAIN_WIDTH div 2),
        car_scale = sc, car_modelIndex = m\<rparr>" for x y n v d sc m
    by (auto simp: spawned_car_def TERRAIN_WIDTH_def)
  from Suc.prems show ?case
    by (auto simp add: Let_def new_ok split: if_splits dest!: Suc.IH)
qed

lemma spawnTreesOnRow_cars: "cars (spawnTreesOnRow rng r s) = cars s"
  by (simp add: spawnTreesOnRow_def Let_def spawnTrees_loop_cars)

lemma spawnCarsOnRow_trees: "trees (spawnCarsOnRow rng r s) = trees s"
  by (simp add: spawnCarsOnRow_def Let_def spawnCars_loop_trees)

lemma spawnTreesOnRow_trees:
  "t \<in> set (trees (spawnTreesOnRow rng r s)) \<Longrightarrow> t \<in> set (trees s) \<or> tree_x t = row_x r"
  by (auto simp: spawnTreesOnRow_def Let_def dest: spawnTrees_loop_trees split: if_splits)

lemma spawnCarsOnRow_cars:
  "c \<in> set (cars (spawnCarsOnRow rng r s)) \<Longrightarrow>
   c \<in> set (cars s) \<or> (car_x c = row_x r \<and> spawned_car rng c)"
  by (auto simp: spawnCarsOnRow_def Let_def dest!: spawnCars_loop_cars split: if_splits)

lemma addRow_trees:
  "t \<in> set (trees (addRow rng x s)) \<Longrightarrow> t \<in> set (trees s) \<or> tree_x t = x"
proof -
  assume a: "t \<in> set (trees (addRow rng x s))"
  obtain newRow n where c: "createRow rng x (draws s) = (newRow, n)"
    by (cases "createRow rng x (draws s)")
  have x: "row_x newRow = x" using createRow_x [of rng x "draws s"] by (simp add: c)
  let ?s1 = "s\<lparr>draws := n, terrainRows := terrainRows s @ [newRow]\<rparr>"
  from a have "t \<in> set (trees (spawnTreesOnRow rng newRow ?s1))"
    by (simp add: addRow_def c Let_def spawnCarsOnRow_trees)
  then have "t \<in> set (trees ?s1) \<or> tree_x t = row_x newRow"
    by (rule spawnTreesOnRow_trees)
  with x show ?thesis by simp
qed

lemma addRow_cars:
  "c \<in> set (cars (addRow rng x s)) \<Longrightarrow>
   c \<in> set (cars s) \<or> (car_x c = x \<and> spawned_car rng c)"
proof -
  assume a: "c \<in> set (cars (addRow rng x s))"
  obtain newRow n where cr: "createRow rng x (draws s) = (newRow, n)"
    by (cases "createRow rng x (draws s)")
  have x: "row_x newRow = x" using createRow_x [of rng x "draws s"] by (simp add: cr)
  let ?s1 = "s\<lparr>draws := n, terrainRows := terrainRows s @ [newRow]\<rparr>"
  let ?s2 = "spawnTreesOnRow rng newRow ?s1"
  have s2: "cars ?s2 = cars s"
    by (simp add: spawnTreesOnRow_cars)
  from a have "c \<in> set (cars (spawnCarsOnRow rng newRow ?s2))"
    by (simp add: addRow_def cr Let_def)
  then have "c \<in> set (cars ?s2) \<or> (car_x c = row_x newRow \<and> spawned_car rng c)"
    by (rule spawnCarsOnRow_cars)
  with x s2 show ?thesis by simp
qed

lemma initTerrain_loop_trees:
  "t \<in> set (trees (initTerrain_loop rng startX js s)) \<Longrightarrow>
   t \<in> set (trees s) \<or> (\<exists>i \<in> set js. tree_x t = startX + real_of_int i * ROW_DEPTH)"
proof (induction js arbitrary: s)
  case Nil
  then show ?case by simp
next
  case (Cons j js)
  from Cons.prems
  have "t \<in> set (trees (initTerrain_loop rng startX js (addRow rng (startX + real_of_int j * ROW_DEPTH) s)))"
    by simp
  from Cons.IH [OF this] show ?case by (auto dest: addRow_trees)
qed

lemma initTerrain_loop_cars:
  "c \<in> set (cars (initTerrain_loop rng startX js s)) \<Longrightarrow>
   c \<in> set (cars s)
   \<or> ((\<exists>i \<in> set js. car_x c = startX + real_of_int i * ROW_DEPTH) \<and> spawned_car rng c)"
proof (induction js arbitrary: s)
  case Nil
  then show ?case by simp
next
  case (Cons j js)
  from Cons.prems
  have "c \<in> set (cars (initTerrain_loop rng startX js (addRow rng (startX + real_of_int j * ROW_DEPTH) s)))"
    by simp
  from Cons.IH [OF this] show ?case by (auto dest: addRow_cars)
qed

lemma extend_loop_trees:
  "t \<in> set (trees (extend_loop rng thr lastX s)) \<Longrightarrow>
   t \<in> set (trees s) \<or> (lastX < tree_x t \<and> tree_x t < thr + ROW_DEPTH)"
proof (induction rng thr lastX s rule: extend_loop.induct)
  case (1 rng thr lastX s)
  show ?case
  proof (cases "lastX < thr")
    case True
    with "1.prems"
    have "t \<in> set (trees (extend_loop rng thr (lastX + ROW_DEPTH) (addRow rng (lastX + ROW_DEPTH) s)))"
      by (subst (asm) extend_loop.simps) simp
    from "1.IH" [OF True this] True show ?thesis
      by (auto simp: ROW_DEPTH_def dest: addRow_trees)
  next
    case False
    with "1.prems" show ?thesis by (subst (asm) extend_loop.simps) simp
  qed
qed

lemma extend_loop_cars:
  "c \<in> set (cars (extend_loop rng thr lastX s)) \<Longrightarrow>
   c \<in> set (cars s) \<or> (lastX < car_x c \<and> car_x c < thr + ROW_DEPTH \<and> spawned_car rng c)"
proof (induction rng thr lastX s rule: extend_loop.induct)
  case (1 rng thr lastX s)
  show ?case
  proof (cases "lastX < thr")
    case True
    with "1.prems"
    have "c \<in> set (cars (extend_loop rng thr (lastX + ROW_DEPTH) (addRow rng (lastX + ROW_DEPTH) s)))"
      by (subst (asm) extend_loop.simps) simp
    from "1.IH" [OF True this] True show ?thesis
      by (auto simp: ROW_DEPTH_def dest: addRow_cars)
  next
    case False
    with "1.prems" show ?thesis by (subst (asm) extend_loop.simps) simp
  qed
qed

section \<open>Traffic keeps within the lane bounds\<close>

lemma moveCar_x: "car_x (moveCar dt others c) = car_x c"
  by (simp add: moveCar_def Let_def)

lemma moveCars_xs: "map car_x (moveCars dt moved cs) = map car_x moved @ map car_x cs"
  by (induction cs arbitrary: moved) (simp_all add: moveCar_x)

lemma moveCar_in_bounds:
  assumes "0 \<le> dt" and "car_in_bounds c"
  shows "car_in_bounds (moveCar dt others c)"
proof -
  define v where "v = num (car_speed c) * num (car_direction c)"
  have pos: "0 \<le> v * dt" if "0 < v" using that assms(1) by simp
  have neg: "v * dt \<le> 0" if "v < 0"
    using that assms(1) by (simp add: mult_nonpos_nonneg)
  have zero: "v * dt = 0" if "\<not> 0 < v" "\<not> v < 0" using that by simp
  from assms(2) have b: "car_minZ c \<le> car_z c" "car_z c \<le> car_maxZ c"
    by (simp_all add: car_in_bounds_def)
  show ?thesis
    using b pos neg zero
    by (cases "0 < v"; cases "v < 0")
       (auto simp: moveCar_def Let_def car_in_bounds_def v_def [symmetric])
qed

lemma moveCars_in_bounds:
  "0 \<le> dt \<Longrightarrow> list_all car_in_bounds moved \<Longrightarrow> list_all car_in_bounds cs \<Longrightarrow>
   list_all car_in_bounds (moveCars dt moved cs)"
  by (induction cs arbitrary: moved) (simp_all add: moveCar_in_bounds)

lemma spawned_in_bounds: "rng_ok rng \<Longrightarrow> spawned_car rng c \<Longrightarrow> car_in_bounds c"
proof -
  assume r: "rng_ok rng" and s: "spawned_car rng c"
  then obtain n where z: "car_z c = rng n * 30 - 15"
    and m: "car_minZ c = - 15" "car_maxZ c = 15"
    by (auto simp: spawned_car_def)
  from r have "0 \<le> rng n" "rng n < 1" by (simp_all add: rng_ok_def)
  with z m show ?thesis by (simp add: car_in_bounds_def)
qed

lemma initTerrain_in_bounds:
  assumes "rng_ok rng" and "cars s = []"
  shows "list_all car_in_bounds (cars (initTerrain rng startX s))"
  unfolding list_all_iff initTerrain_def
proof
  fix c assume "c \<in> set (cars (initTerrain_loop rng startX [- 10..DRAW_DISTANCE - 1] s))"
  from initTerrain_loop_cars [OF this] assms(2) have "spawned_car rng c" by simp
  with assms(1) show "car_in_bounds c" by (rule spawned_in_bounds)
qed

lemma updateTerrain_in_bounds:
  assumes "rng_ok rng" and "list_all car_in_bounds (cars s)"
  shows "list_all car_in_bounds (cars (updateTerrain rng c s))"
  unfolding list_all_iff
proof
  fix k assume "k \<in> set (cars (updateTerrain rng c s))"
  then have "k \<in> set (filter (\<lambda>c'. car_x c' \<ge> c - 15) (cars s)) \<or> spawned_car rng k"
    by (auto simp: updateTerrain_def Let_def dest!: extend_loop_cars)
  with assms show "car_in_bounds k"
    by (auto simp: list_all_iff spawned_in_bounds)
qed

lemma restartGame_in_bounds:
  "rng_ok rng \<Longrightarrow> list_all car_in_bounds (cars (restartGame rng s))"
  by (simp add: restartGame_def Let_def initTerrain_in_bounds)

lemma start_in_bounds: "rng_ok rng \<Longrightarrow> list_all car_in_bounds (cars (start rng pg))"
  by (simp add: start_def initTerrain_in_bounds globals_def)

lemma drawScene_in_bounds:
  assumes "rng_ok rng" and "isPaused s \<or> 0 \<le> dt_of time s"
    and "list_all car_in_bounds (cars s)"
  shows "list_all car_in_bounds (cars (drawScene rng time aspect s))"
proof (cases "isPaused s")
  case True
  with assms(3) show ?thesis by (simp add: drawScene_paused)
next
  case False
  with assms(2) have dt: "0 \<le> dt_of time s" by simp
  define a where "a = cameraPull aspect
      (leftBehindCheck (scrollAdvance (dt_of time s) (scoreUpdate (clockAdvance time s))))"
  define b where "b = carCollisionCheck (trafficMove (dt_of time s) a)"
  have "cars a = cars s"
    by (simp add: a_def cameraPull_def Let_def
        leftBehindCheck_def scrollAdvance_def gameOver_def scoreUpdate_def clockAdvance_def)
  with assms(3) dt have "list_all car_in_bounds (cars b)"
    by (simp add: b_def carCollisionCheck_def trafficMove_def gameOver_def moveCars_in_bounds)
  with assms(1) have "list_all car_in_bounds (cars (windowUpdate rng b))"
    unfolding windowUpdate_def by (rule updateTerrain_in_bounds)
  moreover have "drawScene rng time aspect s = frameDone (windowUpdate rng b)"
    using False by (simp add: drawScene_phases tick_code_order_def a_def b_def Let_def)
  ultimately show ?thesis by (simp add: frameDone_def)
qed

lemma run_in_bounds:
  "rng_ok rng \<Longrightarrow> forward rng s es \<Longrightarrow> list_all car_in_bounds (cars s) \<Longrightarrow>
   list_all car_in_bounds (cars (run rng s es))"
proof (induction es arbitrary: s)
  case Nil
  then show ?case by (simp add: run_def)
next
  case (Cons e es)
  have r: "run rng s (e # es) = run rng (handle rng s e) es" by (simp add: run_def)
  have f: "forward rng (handle rng s e) es"
    using Cons.prems(2) by (cases e) simp_all
  have "list_all car_in_bounds (cars (handle rng s e))"
  proof (cases e)
    case (Tick time aspect)
    with Cons.prems show ?thesis by (simp add: drawScene_in_bounds)
  next
    case (KeyDown repeat key)
    with Cons.prems(3) show ?thesis by (simp add: keyDown_def Let_def)
  next
    case PauseClick
    with Cons.prems(3) show ?thesis by (simp add: pauseClick_def Let_def)
  next
    case RestartClick
    with Cons.prems(1) show ?thesis by (simp add: restartGame_in_bounds)
  qed
  with Cons.IH [OF Cons.prems(1) f] show ?case unfolding r by simp
qed

lemma lastTime_drawScene: "lastTime (drawScene rng time aspect s) = Some time"
proof (cases "isPaused s")
  case True
  then show ?thesis by (simp add: drawScene_paused)
next
  case False
  define b where "b = carCollisionCheck (trafficMove (dt_of time s) (cameraPull aspect
      (leftBehindCheck (scrollAdvance (dt_of time s) (scoreUpdate (clockAdvance time s))))))"
  have "lastTime b = Some time"
    by (simp add: b_def carCollisionCheck_def trafficMove_def cameraPull_def Let_def
        leftBehindCheck_def scrollAdvance_def gameOver_def scoreUpdate_def clockAdvance_def)
  moreover have "same_session b (windowUpdate rng b)" by (rule windowUpdate_session)
  moreover have "drawScene rng time aspect s = frameDone (windowUpdate rng b)"
    using False by (simp add: drawScene_phases tick_code_order_def b_def Let_def)
  ultimately show ?thesis by (simp add: frameDone_def same_session_def)
qed

lemma start_session: "same_session (globals pg) (start rng pg)"
  unfolding start_def by (rule initTerrain_session)

lemma start_fields:
  "\<not> isPaused (start rng pg)" "\<not> isGameOver (start rng pg)" "lastTime (start rng pg) = None"
  "cameraX (start rng pg) = - 12" "p_x (player (start rng pg)) = - 5"
  "p_z (player (start rng pg)) = 0" "maxDistanceX (start rng pg) = - 5"
  using start_session [of pg rng] by (simp_all add: same_session_def globals_def initialX_def)

lemma draws_fifth_ok: "rng_ok draws_fifth"
  by (simp add: rng_ok_def draws_fifth_def)

text \<open>
  C3. With draws in \<open>[0, 1)\<close> and a delta-time of at least 0 in every simulating frame,
  every car of every state a run reaches from the start state has its lateral coordinate
  within its \<open>[minZ, maxZ]\<close>. The move-and-wrap step of one car keeps it there; when the
  car moves in the positive direction and its move takes it past \<open>maxZ\<close> it is put on
  \<open>minZ\<close>, and when it moves in the negative direction past \<open>minZ\<close> it is put on \<open>maxZ\<close>.
\<close>

theorem cars_within_bounds:
  "(rng_ok rng \<and> forward rng (start rng pg) es
      \<longrightarrow> list_all car_in_bounds (cars (run rng (start rng pg) es)))
   \<and> (0 \<le> dt \<and> car_in_bounds c \<longrightarrow> car_in_bounds (moveCar dt others c))
   \<and> (0 < velocity c \<and> \<not> wouldCollide dt others c \<and> car_maxZ c < car_z c + velocity c * dt
        \<longrightarrow> car_z (moveCar dt others c) = car_minZ c)
   \<and> (velocity c < 0 \<and> \<not> wouldCollide dt others c \<and> car_z c + velocity c * dt < car_minZ c
        \<longrightarrow> car_z (moveCar dt others c) = car_maxZ c)"
proof -
  have a: "list_all car_in_bounds (cars (run rng (start rng pg) es))"
    if "rng_ok rng" "forward rng (start rng pg) es"
    using that by (simp add: run_in_bounds start_in_bounds)
  have b: "car_z (moveCar dt others c) = car_minZ c"
    if "0 < velocity c" "\<not> wouldCollide dt others c" "car_maxZ c < car_z c + velocity c * dt"
    using that by (simp add: moveCar_def Let_def velocity_def wouldCollide_def)
  have c: "car_z (moveCar dt others c) = car_maxZ c"
    if "velocity c < 0" "\<not> wouldCollide dt others c" "car_z c + velocity c * dt < car_minZ c"
    using that by (simp add: moveCar_def Let_def velocity_def wouldCollide_def)
  show ?thesis using a b c by (simp add: moveCar_in_bounds)
qed

theorem cars_within_bounds_witness:
  "rng_ok draws_fifth
   \<and> forward draws_fifth (start draws_fifth page0) [Tick 16 1, Tick 32 1]
   \<and> list_all car_in_bounds (cars (run draws_fifth (start draws_fifth page0) [Tick 16 1, Tick 32 1]))
   \<and> car_in_bounds car_near_edge
   \<and> car_in_bounds (moveCar (1 / 10) [] car_near_edge)
   \<and> car_z (moveCar (1 / 10) [] car_near_edge) = - 15"
proof -
  have f: "forward draws_fifth (start draws_fifth page0) [Tick 16 1, Tick 32 1]"
    by (simp add: start_fields dt_of_def lastTime_drawScene)
  have k: "car_in_bounds car_near_edge" "0 < velocity car_near_edge"
    "\<not> wouldCollide (1 / 10) [] car_near_edge"
    "car_maxZ car_near_edge < car_z car_near_edge + velocity car_near_edge * (1 / 10)"
    "car_minZ car_near_edge = - 15"
    by (simp_all add: car_near_edge_def car_in_bounds_def velocity_def num_def wouldCollide_def)
  from cars_within_bounds [of draws_fifth page0 "[Tick 16 1, Tick 32 1]" "1 / 10" car_near_edge "[]"]
    draws_fifth_ok f k
  show ?thesis by simp
qed

section \<open>The band of the world window\<close>

lemma dropWhile_keeps_last:
  "xs \<noteq> [] \<Longrightarrow> \<not> P (last xs) \<Longrightarrow> dropWhile P xs \<noteq> [] \<and> last (dropWhile P xs) = last xs"
  by (induction xs) (auto split: if_splits)

lemma updateTerrain_in_band:
  assumes up: "in_band lo (c + real_of_int DRAW_DISTANCE + ROW_DEPTH) s"
    and ne: "terrainRows s \<noteq> []"
    and kept: "c - 15 \<le> row_x (last (terrainRows s))"
  shows "in_band (c - 15) (c + real_of_int DRAW_DISTANCE + ROW_DEPTH) (updateTerrain rng c s)"
proof -
  define rows1 where "rows1 = dropWhile (\<lambda>r. row_x r < c - 15) (terrainRows s)"
  define s1 where "s1 = s\<lparr>terrainRows := rows1,
                 trees := filter (\<lambda>t. tree_x t \<ge> c - 15) (trees s),
                 cars := filter (\<lambda>c'. car_x c' \<ge> c - 15) (cars s)\<rparr>"
  define lastX where "lastX = (if rows1 \<noteq> [] then row_x (last rows1) else 0)"
  have u: "updateTerrain rng c s = extend_loop rng (c + real_of_int DRAW_DISTANCE) lastX s1"
    by (simp add: updateTerrain_def Let_def rows1_def s1_def lastX_def)
  from kept have "\<not> row_x (last (terrainRows s)) < c - 15" by simp
  with ne have "rows1 \<noteq> [] \<and> last rows1 = last (terrainRows s)"
    unfolding rows1_def by (rule dropWhile_keeps_last)
  with kept have lx: "c - 15 \<le> lastX" by (simp add: lastX_def)
  have t: "c - 15 \<le> tree_x t \<and> tree_x t < c + real_of_int DRAW_DISTANCE + ROW_DEPTH"
    if "t \<in> set (trees (updateTerrain rng c s))" for t
  proof -
    from that have "t \<in> set (trees s1)
        \<or> (lastX < tree_x t \<and> tree_x t < c + real_of_int DRAW_DISTANCE + ROW_DEPTH)"
      unfolding u by (rule extend_loop_trees)
    then show ?thesis
      using up lx by (auto simp: s1_def in_band_def list_all_iff)
  qed
  have k: "c - 15 \<le> car_x k \<and> car_x k < c + real_of_int DRAW_DISTANCE + ROW_DEPTH"
    if "k \<in> set (cars (updateTerrain rng c s))" for k
  proof -
    from that have "k \<in> set (cars s1)
        \<or> (lastX < car_x k \<and> car_x k < c + real_of_int DRAW_DISTANCE + ROW_DEPTH \<and> spawned_car rng k)"
      unfolding u by (rule extend_loop_cars)
    then show ?thesis
      using up lx by (auto simp: s1_def in_band_def list_all_iff)
  qed
  from t k show ?thesis by (simp add: in_band_def list_all_iff)
qed

lemma initTerrain_in_band:
  assumes "trees s = []" and "cars s = []"
  shows "in_band (startX - 10) (startX + real_of_int DRAW_DISTANCE) (initTerrain rng startX s)"
proof -
  have r: "startX - 10 \<le> startX + real_of_int i * ROW_DEPTH
      \<and> startX + real_of_int i * ROW_DEPTH < startX + real_of_int DRAW_DISTANCE"
    if "i \<in> set [- 10..DRAW_DISTANCE - 1]" for i
    using that by (simp add: ROW_DEPTH_def)
  have "startX - 10 \<le> tree_x t \<and> tree_x t < startX + real_of_int DRAW_DISTANCE"
    if "t \<in> set (trees (initTerrain rng startX s))" for t
    using initTerrain_loop_trees [OF that [unfolded initTerrain_def]] assms(1) r by auto
  moreover have "startX - 10 \<le> car_x k \<and> car_x k < startX + real_of_int DRAW_DISTANCE"
    if "k \<in> set (cars (initTerrain rng startX s))" for k
    using initTerrain_loop_cars [OF that [unfolded initTerrain_def]] assms(2) r by auto
  ultimately show ?thesis by (simp add: in_band_def list_all_iff)
qed

lemma in_band_mono: "in_band lo hi s \<Longrightarrow> lo' \<le> lo \<Longrightarrow> hi \<le> hi' \<Longrightarrow> in_band lo' hi' s"
  by (auto simp: in_band_def list_all_iff)

lemma in_band_cong:
  assumes t: "trees s' = trees s" and c: "map car_x (cars s') = map car_x (cars s)"
  shows "in_band lo hi s' = in_band lo hi s"
proof -
  have "list_all (\<lambda>c. lo \<le> car_x c \<and> car_x c < hi) (cars s')
      = list_all (\<lambda>x. lo \<le> x \<and> x < hi) (map car_x (cars s'))"
    by (simp add: list_all_iff)
  also have "\<dots> = list_all (\<lambda>x. lo \<le> x \<and> x < hi) (map car_x (cars s))"
    by (simp only: c)
  also have "\<dots> = list_all (\<lambda>c. lo \<le> car_x c \<and> car_x c < hi) (cars s)"
    by (simp add: list_all_iff)
  finally show ?thesis by (simp add: in_band_def t)
qed

lemma start_in_window: "in_window (start rng pg)"
proof -
  have "in_band (- 12 - 10) (- 12 + real_of_int DRAW_DISTANCE) (start rng pg)"
    unfolding start_def by (rule initTerrain_in_band) (simp_all add: globals_def)
  then have "in_band (- 12 - 15) (- 12 + real_of_int DRAW_DISTANCE + ROW_DEPTH) (start rng pg)"
    by (rule in_band_mono) (simp_all add: ROW_DEPTH_def)
  then show ?thesis by (simp add: in_window_def start_fields)
qed

lemma restartGame_in_window: "in_window (restartGame rng s)"
proof -
  define s1 where "s1 = s\<lparr>isPaused := False, isGameOver := False,
                 player := (player s)\<lparr>p_x := - 5, p_z := 0, p_rotationY := 90\<rparr>,
                 cameraX := - 12,
                 maxDistanceX := initialX, scoreText := 0,
                 trees := [], cars := [], terrainRows := []\<rparr>"
  have "in_band (- 12 - 10) (- 12 + real_of_int DRAW_DISTANCE) (initTerrain rng (- 12) s1)"
    by (rule initTerrain_in_band) (simp_all add: s1_def)
  then have b: "in_band (- 12 - 15) (- 12 + real_of_int DRAW_DISTANCE + ROW_DEPTH)
      (initTerrain rng (- 12) s1)"
    by (rule in_band_mono) (simp_all add: ROW_DEPTH_def)
  have "same_session s1 (initTerrain rng (- 12) s1)" by (rule initTerrain_session)
  then have c: "cameraX (initTerrain rng (- 12) s1) = - 12"
    by (simp add: same_session_def s1_def)
  have "restartGame rng s = (initTerrain rng (- 12) s1)\<lparr>modalHidden := True, lastTime := None\<rparr>"
    by (simp add: restartGame_def Let_def s1_def)
  with b c show ?thesis by (simp add: in_window_def in_band_def)
qed

lemma drawScene_in_window:
  assumes "\<not> isPaused s" and "0 \<le> dt_of time s" and "terrainRows s \<noteq> []"
    and "cameraX (drawScene rng time aspect s) - 15 \<le> row_x (last (terrainRows s))"
    and "in_window s"
  shows "in_window (drawScene rng time aspect s)"
proof -
  define a where "a = cameraPull aspect
      (leftBehindCheck (scrollAdvance (dt_of time s) (scoreUpdate (clockAdvance time s))))"
  define b where "b = carCollisionCheck (trafficMove (dt_of time s) a)"
  have d: "drawScene rng time aspect s = frameDone (windowUpdate rng b)"
    using assms(1) by (simp add: drawScene_phases tick_code_order_def a_def b_def Let_def)
  have "0 \<le> scrollSpeed * dt_of time s"
    using assms(2) by (simp add: scrollSpeed_def)
  then have ca: "cameraX s \<le> cameraX a"
    by (simp add: a_def cameraPull_def Let_def
        leftBehindCheck_def scrollAdvance_def gameOver_def scoreUpdate_def clockAdvance_def)
  have cb: "cameraX b = cameraX a"
    by (simp add: b_def carCollisionCheck_def trafficMove_def gameOver_def)
  have rb: "terrainRows b = terrainRows s" and tb: "trees b = trees s"
    by (simp_all add: a_def b_def carCollisionCheck_def trafficMove_def cameraPull_def Let_def
        leftBehindCheck_def scrollAdvance_def gameOver_def scoreUpdate_def clockAdvance_def)
  have "cars a = cars s"
    by (simp add: a_def cameraPull_def Let_def
        leftBehindCheck_def scrollAdvance_def gameOver_def scoreUpdate_def clockAdvance_def)
  then have kb: "map car_x (cars b) = map car_x (cars s)"
    by (simp add: b_def carCollisionCheck_def trafficMove_def gameOver_def moveCars_xs)
  have "same_session b (windowUpdate rng b)" by (rule windowUpdate_session)
  then have cu: "cameraX (updateTerrain rng (cameraX b) b) = cameraX b"
    by (simp add: windowUpdate_def same_session_def)
  then have cw: "cameraX (drawScene rng time aspect s) = cameraX b"
    by (simp add: d frameDone_def windowUpdate_def)
  from assms(5) have "in_band (cameraX s - 15) (cameraX b + real_of_int DRAW_DISTANCE + ROW_DEPTH) s"
    unfolding in_window_def by (rule in_band_mono) (use ca cb in simp_all)
  then have up: "in_band (cameraX s - 15) (cameraX b + real_of_int DRAW_DISTANCE + ROW_DEPTH) b"
    by (simp add: in_band_cong [OF tb kb])
  from assms(3) have ne: "terrainRows b \<noteq> []" by (simp add: rb)
  from assms(4) have kept: "cameraX b - 15 \<le> row_x (last (terrainRows b))"
    by (simp add: cw rb)
  have "in_band (cameraX b - 15) (cameraX b + real_of_int DRAW_DISTANCE + ROW_DEPTH)
      (updateTerrain rng (cameraX b) b)"
    using up ne kept by (rule updateTerrain_in_band)
  then show ?thesis
    by (simp add: in_window_def cu d windowUpdate_def frameDone_def in_band_def)
qed

lemma run_in_window:
  "lane_kept rng s es \<Longrightarrow> in_window s \<Longrightarrow> in_window (run rng s es)"
proof (induction es arbitrary: s)
  case Nil
  then show ?case by (simp add: run_def)
next
  case (Cons e es)
  have r: "run rng s (e # es) = run rng (handle rng s e) es" by (simp add: run_def)
  have f: "lane_kept rng (handle rng s e) es"
    using Cons.prems(1) by (cases e) simp_all
  have "in_window (handle rng s e)"
  proof (cases e)
    case (Tick time aspect)
    show ?thesis
    proof (cases "isPaused s")
      case True
      with Cons.prems(2) show ?thesis
        by (simp add: Tick drawScene_paused in_window_def in_band_def)
    next
      case False
      with Cons.prems show ?thesis by (simp add: Tick drawScene_in_window)
    qed
  next
    case (KeyDown repeat key)
    with Cons.prems(2) show ?thesis by (simp add: keyDown_def Let_def in_window_def in_band_def)
  next
    case PauseClick
    with Cons.prems(2) show ?thesis by (simp add: pauseClick_def Let_def in_window_def in_band_def)
  next
    case RestartClick
    then show ?thesis by (simp add: restartGame_in_window)
  qed
  with Cons.IH [OF f] show ?case unfolding r by simp
qed

text \<open>
  C5 (as the code has it). In every state that a run reaches from the start state, as
  long as each simulating frame has a delta-time of at least 0 and does not evict the
  furthest lane, every tree and car has its lane-axis coordinate at least
  \<open>cameraX - 15\<close> and below \<open>cameraX + DRAW_DISTANCE + ROW_DEPTH\<close>: the world window may
  reach less than one row beyond \<open>cameraX + DRAW_DISTANCE\<close>.
\<close>

theorem entities_within_window:
  assumes "lane_kept rng (start rng pg) es"
  shows "in_window (run rng (start rng pg) es)"
  using assms start_in_window by (rule run_in_window)

section \<open>Scroll position and player across a frame\<close>

lemma start_last_row:
  "terrainRows (start rng pg) \<noteq> [] \<and> row_x (last (terrainRows (start rng pg))) = 27"
proof -
  let ?f = "\<lambda>i. - 12 + real_of_int i * ROW_DEPTH"
  have u: "[- 10..DRAW_DISTANCE - 1] = [- 10..38] @ [39]"
    by (simp add: DRAW_DISTANCE_def upto_rec2)
  have g: "map row_x (terrainRows (globals pg)) = []"
    by (simp add: globals_def)
  have "map row_x (terrainRows (start rng pg))
      = map row_x (terrainRows (globals pg)) @ map ?f [- 10..DRAW_DISTANCE - 1]"
    unfolding start_def initTerrain_def by (rule initTerrain_loop_row_xs)
  also have "\<dots> = map ?f [- 10..38] @ [?f 39]"
    by (simp only: g u map_append list.map append_Nil)
  finally have m: "map row_x (terrainRows (start rng pg)) = map ?f [- 10..38] @ [?f 39]" .
  then have ne: "terrainRows (start rng pg) \<noteq> []" by auto
  from m have "last (map row_x (terrainRows (start rng pg))) = ?f 39"
    by (simp only: last_snoc)
  with ne show ?thesis by (simp add: last_map ROW_DEPTH_def)
qed

lemma cameraX_drawScene:
  assumes "\<not> isPaused s"
  shows "cameraX (drawScene rng time aspect s)
    = max (cameraX s + scrollSpeed * dt_of time s) (p_x (player s) + (6 / aspect) / 6 - 10)"
proof -
  define a where "a = cameraPull aspect
      (leftBehindCheck (scrollAdvance (dt_of time s) (scoreUpdate (clockAdvance time s))))"
  define b where "b = carCollisionCheck (trafficMove (dt_of time s) a)"
  have d: "drawScene rng time aspect s = frameDone (windowUpdate rng b)"
    using assms by (simp add: drawScene_phases tick_code_order_def a_def b_def Let_def)
  have "cameraX a = max (cameraX s + scrollSpeed * dt_of time s) (p_x (player s) + (6 / aspect) / 6 - 10)"
    by (simp add: a_def cameraPull_def Let_def
        leftBehindCheck_def scrollAdvance_def gameOver_def scoreUpdate_def clockAdvance_def)
  then have "cameraX b = max (cameraX s + scrollSpeed * dt_of time s) (p_x (player s) + (6 / aspect) / 6 - 10)"
    by (simp add: b_def carCollisionCheck_def trafficMove_def gameOver_def)
  moreover have "same_session b (windowUpdate rng b)" by (rule windowUpdate_session)
  ultimately show ?thesis by (simp add: d frameDone_def same_session_def)
qed

lemma player_drawScene: "player (drawScene rng time aspect s) = player s"
proof (cases "isPaused s")
  case True
  then show ?thesis by (simp add: drawScene_paused)
next
  case False
  define b where "b = carCollisionCheck (trafficMove (dt_of time s) (cameraPull aspect
      (leftBehindCheck (scrollAdvance (dt_of time s) (scoreUpdate (clockAdvance time s))))))"
  have "player b = player s"
    by (simp add: b_def carCollisionCheck_def trafficMove_def cameraPull_def Let_def
        leftBehindCheck_def scrollAdvance_def gameOver_def scoreUpdate_def clockAdvance_def)
  moreover have "same_session b (windowUpdate rng b)" by (rule windowUpdate_session)
  moreover have "drawScene rng time aspect s = frameDone (windowUpdate rng b)"
    using False by (simp add: drawScene_phases tick_code_order_def b_def Let_def)
  ultimately show ?thesis by (simp add: frameDone_def same_session_def)
qed

section \<open>Pause toggle after game over\<close>

lemma dt_of_pauseClick: "dt_of time (pauseClick s) = dt_of time s"
  by (simp add: dt_of_def pauseClick_def Let_def)

text \<open>
  C7 (what the code does). In a game-over state, where \<open>gameOver\<close> has set both flags, a
  click on the pause button clears \<open>isPaused\<close> while \<open>isGameOver\<close> stays set; the next
  frame with a positive delta-time then simulates again and moves the scroll position
  forward. The game-over state is not terminal until Restart.
\<close>

theorem pause_click_resumes_after_game_over:
  assumes "isGameOver s" and "isPaused s" and "0 < dt_of time s"
  shows "\<not> isPaused (pauseClick s) \<and> isGameOver (pauseClick s)
       \<and> cameraX s < cameraX (drawScene rng time aspect (pauseClick s))"
proof -
  have f: "\<not> isPaused (pauseClick s)" "isGameOver (pauseClick s)"
    "cameraX (pauseClick s) = cameraX s"
    using assms(1,2) by (simp_all add: pauseClick_def Let_def)
  have "0 < scrollSpeed * dt_of time s"
    using assms(3) by (simp add: scrollSpeed_def)
  then have "cameraX s < cameraX (drawScene rng time aspect (pauseClick s))"
    by (simp add: cameraX_drawScene [OF f(1)] f(3) dt_of_pauseClick max_def)
  with f show ?thesis by simp
qed

section \<open>Draws and determinism\<close>

lemma agree_mono: "agree rng rng' k \<Longrightarrow> k \<le> k' \<Longrightarrow> agree rng rng' k'"
  by (simp add: agree_def)

lemma agree_at: "agree rng rng' k \<Longrightarrow> k \<le> n \<Longrightarrow> rng n = rng' n"
  by (simp add: agree_def)

lemma createRow_agree: "agree rng rng' n \<Longrightarrow> createRow rng x n = createRow rng' x n"
proof -
  assume a: "agree rng rng' n"
  have "rng n = rng' n" "rng (n + 1) = rng' (n + 1)" "rng (n + 2) = rng' (n + 2)"
    using a by (simp_all add: agree_def)
  then show ?thesis by (simp add: createRow_def)
qed

lemma createRow_draws: "k \<le> n \<Longrightarrow> k \<le> snd (createRow rng x n)"
  by (simp add: createRow_def Let_def split: prod.splits)

lemma spawnTrees_loop_draws: "k \<le> draws s \<Longrightarrow> k \<le> draws (spawnTrees_loop rng r zs s)"
  by (induction zs arbitrary: s) (simp_all add: Let_def)

lemma spawnCars_loop_draws: "k \<le> draws s \<Longrightarrow> k \<le> draws (spawnCars_loop rng r n s)"
  by (induction n arbitrary: s) (simp_all add: Let_def)

lemma spawnTreesOnRow_draws: "k \<le> draws s \<Longrightarrow> k \<le> draws (spawnTreesOnRow rng r s)"
  by (simp add: spawnTreesOnRow_def Let_def spawnTrees_loop_draws)

lemma spawnCarsOnRow_draws: "k \<le> draws s \<Longrightarrow> k \<le> draws (spawnCarsOnRow rng r s)"
  by (simp add: spawnCarsOnRow_def Let_def spawnCars_loop_draws)

lemma addRow_draws: "k \<le> draws s \<Longrightarrow> k \<le> draws (addRow rng x s)"
proof -
  assume k: "k \<le> draws s"
  obtain newRow n where c: "createRow rng x (draws s) = (newRow, n)"
    by (cases "createRow rng x (draws s)")
  from createRow_draws [OF k, of rng x] have "k \<le> n" by (simp add: c)
  then show ?thesis
    by (simp add: addRow_def c Let_def spawnCarsOnRow_draws spawnTreesOnRow_draws)
qed

lemma spawnTrees_loop_agree:
  "agree rng rng' (draws s) \<Longrightarrow> spawnTrees_loop rng r zs s = spawnTrees_loop rng' r zs s"
proof (induction zs arbitrary: s)
  case Nil
  show ?case by simp
next
  case (Cons z zs)
  have e: "rng (draws s) = rng' (draws s)" "rng (Suc (draws s)) = rng' (Suc (draws s))"
    using Cons.prems by (simp_all add: agree_def)
  have i: "spawnTrees_loop rng r zs s' = spawnTrees_loop rng' r zs s'"
    if "draws s \<le> draws s'" for s'
    using Cons.IH [OF agree_mono [OF Cons.prems that]] .
  show ?case by (simp add: Let_def e i)
qed

lemma spawnCars_loop_agree:
  "agree rng rng' (draws s) \<Longrightarrow> spawnCars_loop rng r n s = spawnCars_loop rng' r n s"
proof (induction n arbitrary: s)
  case 0
  show ?case by simp
next
  case (Suc n)
  have e: "rng (draws s) = rng' (draws s)" "rng (Suc (draws s)) = rng' (Suc (draws s))"
    using Suc.prems by (simp_all add: agree_def)
  have i: "spawnCars_loop rng r n s' = spawnCars_loop rng' r n s'"
    if "draws s \<le> draws s'" for s'
    using Suc.IH [OF agree_mono [OF Suc.prems that]] .
  show ?case by (simp add: Let_def e i)
qed

lemma spawnTreesOnRow_agree:
  "agree rng rng' (draws s) \<Longrightarrow> spawnTreesOnRow rng r s = spawnTreesOnRow rng' r s"
  by (simp add: spawnTreesOnRow_def Let_def spawnTrees_loop_agree)

lemma spawnCarsOnRow_agree:
  "agree rng rng' (draws s) \<Longrightarrow> spawnCarsOnRow rng r s = spawnCarsOnRow rng' r s"
proof -
  assume a: "agree rng rng' (draws s)"
  then have e: "rng (draws s) = rng' (draws s)" by (simp add: agree_def)
  have "spawnCars_loop rng r n (s\<lparr>draws := draws s + 1\<rparr>)
      = spawnCars_loop rng' r n (s\<lparr>draws := draws s + 1\<rparr>)" for n
    by (rule spawnCars_loop_agree) (use a in \<open>simp add: agree_def\<close>)
  then show ?thesis by (simp add: spawnCarsOnRow_def Let_def e)
qed

lemma addRow_agree: "agree rng rng' (draws s) \<Longrightarrow> addRow rng x s = addRow rng' x s"
proof -
  assume a: "agree rng rng' (draws s)"
  obtain newRow n where c: "createRow rng x (draws s) = (newRow, n)"
    by (cases "createRow rng x (draws s)")
  from createRow_agree [OF a, of x] c have c': "createRow rng' x (draws s) = (newRow, n)"
    by simp
  from createRow_draws [of "draws s" "draws s" rng x] have n: "draws s \<le> n" by (simp add: c)
  let ?s1 = "s\<lparr>draws := n, terrainRows := terrainRows s @ [newRow]\<rparr>"
  have a1: "agree rng rng' (draws ?s1)" using a n by (simp add: agree_def)
  have t: "spawnTreesOnRow rng newRow ?s1 = spawnTreesOnRow rng' newRow ?s1"
    using a1 by (rule spawnTreesOnRow_agree)
  have "draws s \<le> draws (spawnTreesOnRow rng' newRow ?s1)"
    by (rule spawnTreesOnRow_draws) (simp add: n)
  with a have "agree rng rng' (draws (spawnTreesOnRow rng' newRow ?s1))" by (rule agree_mono)
  then have "spawnCarsOnRow rng newRow (spawnTreesOnRow rng' newRow ?s1)
      = spawnCarsOnRow rng' newRow (spawnTreesOnRow rng' newRow ?s1)"
    by (rule spawnCarsOnRow_agree)
  then show ?thesis by (simp add: addRow_def c c' Let_def t)
qed

lemma extend_loop_agree:
  "agree rng rng' (draws s) \<Longrightarrow> extend_loop rng thr lastX s = extend_loop rng' thr lastX s"
proof (induction rng thr lastX s rule: extend_loop.induct)
  case (1 rng thr lastX s)
  show ?case
  proof (cases "lastX < thr")
    case True
    have "draws s \<le> draws (addRow rng (lastX + ROW_DEPTH) s)"
      by (rule addRow_draws) simp
    with "1.prems" have "agree rng rng' (draws (addRow rng (lastX + ROW_DEPTH) s))"
      by (rule agree_mono)
    from "1.IH" [OF True this] addRow_agree [OF "1.prems", of "lastX + ROW_DEPTH"] True
    show ?thesis
      by (subst extend_loop.simps, subst (2) extend_loop.simps) simp
  next
    case False
    then show ?thesis by (subst extend_loop.simps, subst (2) extend_loop.simps) simp
  qed
qed

lemma updateTerrain_agree:
  "agree rng rng' (draws s) \<Longrightarrow> updateTerrain rng c s = updateTerrain rng' c s"
  by (simp add: updateTerrain_def Let_def extend_loop_agree)

lemma drawScene_agree:
  assumes "agree rng rng' (draws s)"
  shows "drawScene rng time aspect s = drawScene rng' time aspect s"
proof (cases "isPaused s")
  case True
  then show ?thesis by (simp add: drawScene_paused)
next
  case False
  define b where "b = carCollisionCheck (trafficMove (dt_of time s) (cameraPull aspect
      (leftBehindCheck (scrollAdvance (dt_of time s) (scoreUpdate (clockAdvance time s))))))"
  have "draws b = draws s"
    by (simp add: b_def carCollisionCheck_def trafficMove_def cameraPull_def Let_def
        leftBehindCheck_def scrollAdvance_def gameOver_def scoreUpdate_def clockAdvance_def)
  with assms have "windowUpdate rng b = windowUpdate rng' b"
    by (simp add: windowUpdate_def updateTerrain_agree)
  moreover have "drawScene r time aspect s = frameDone (windowUpdate r b)" for r
    using False by (simp add: drawScene_phases tick_code_order_def b_def Let_def)
  ultimately show ?thesis by simp
qed

section \<open>The frame in the order of the specification, window last\<close>

lemma before_window_reordered:
  "carCollisionCheck (trafficMove dt (cameraPull aspect
      (leftBehindCheck (scrollAdvance dt (scoreUpdate a)))))
   = (let b = scrollAdvance dt a;
          behind = leftBehind b;
          c = cameraPull aspect b;
          e = trafficMove dt c;
          hit = carHit e;
          f = scoreUpdate e
      in if behind \<or> hit then gameOver f else f)"
proof -
  define sc where "sc = (p_x (player a) > maxDistanceX a)"
  define behind where "behind = leftBehind (scrollAdvance dt a)"
  define hit where "hit = carHit (trafficMove dt (cameraPull aspect (scrollAdvance dt a)))"
  have lb: "leftBehind (scrollAdvance dt (scoreUpdate a)) = behind"
    by (simp add: behind_def leftBehind_def scrollAdvance_def scoreUpdate_def)
  have h1: "carHit (trafficMove dt (cameraPull aspect (scrollAdvance dt (scoreUpdate a)))) = hit"
    by (simp add: hit_def carHit_def checkCollisionWithCars_def trafficMove_def cameraPull_def
        Let_def scrollAdvance_def scoreUpdate_def)
  have h2: "carHit (trafficMove dt (cameraPull aspect (gameOver (scrollAdvance dt (scoreUpdate a))))) = hit"
    by (simp add: hit_def carHit_def checkCollisionWithCars_def trafficMove_def cameraPull_def
        Let_def scrollAdvance_def scoreUpdate_def gameOver_def)
  show ?thesis
    unfolding Let_def carCollisionCheck_def leftBehindCheck_def lb
    apply (fold behind_def hit_def)
    apply (cases behind; cases hit; cases sc)
    apply (simp_all add: h1 h2)
    apply (simp_all add: sc_def trafficMove_def cameraPull_def Let_def scrollAdvance_def
        scoreUpdate_def gameOver_def)
    done
qed

lemma drawScene_window_last:
  "\<not> isPaused s \<Longrightarrow> drawScene rng time aspect s = tick_window_last rng time aspect s"
  by (simp add: drawScene_phases tick_code_order_def tick_window_last_def
      before_window_reordered Let_def)

section \<open>The timestamp beyond the delta-time\<close>

lemma world_fields:
  "world s = world s' \<Longrightarrow> draws s' = draws s \<and> trees s' = trees s \<and> cars s' = cars s
     \<and> terrainRows s' = terrainRows s"
  by (simp add: world_def)

lemma spawnTrees_loop_world:
  "world s = world s' \<Longrightarrow> world (spawnTrees_loop rng r zs s) = world (spawnTrees_loop rng r zs s')"
proof (induction zs arbitrary: s s')
  case Nil
  then show ?case by simp
next
  case (Cons z zs)
  from world_fields [OF Cons.prems] have f: "draws s' = draws s" "trees s' = trees s" by simp_all
  show ?case
    apply (simp add: Let_def f)
    apply (intro conjI impI Cons.IH)
    apply (simp_all add: world_def f)
    using Cons.prems apply (simp_all add: world_def)
    done
qed

lemma spawnCars_loop_world:
  "world s = world s' \<Longrightarrow> world (spawnCars_loop rng r n s) = world (spawnCars_loop rng r n s')"
proof (induction n arbitrary: s s')
  case 0
  then show ?case by simp
next
  case (Suc n)
  from world_fields [OF Suc.prems] have f: "draws s' = draws s" "cars s' = cars s" by simp_all
  show ?case
    apply (simp add: Let_def f)
    apply (intro conjI impI Suc.IH)
    apply (simp_all add: world_def f)
    using Suc.prems apply (simp_all add: world_def)
    done
qed

lemma spawnTreesOnRow_world:
  assumes "world s = world s'"
  shows "world (spawnTreesOnRow rng r s) = world (spawnTreesOnRow rng r s')"
proof (cases "row_type r \<noteq> Grass")
  case True
  with assms show ?thesis by (simp add: spawnTreesOnRow_def)
next
  case False
  have "world (spawnTrees_loop rng r zs s) = world (spawnTrees_loop rng r zs s')" for zs
    using assms by (rule spawnTrees_loop_world)
  with False show ?thesis by (simp add: spawnTreesOnRow_def Let_def)
qed

lemma spawnCarsOnRow_world:
  assumes "world s = world s'"
  shows "world (spawnCarsOnRow rng r s) = world (spawnCarsOnRow rng r s')"
proof -
  from world_fields [OF assms] have f: "draws s' = draws s" by simp
  have "world (s\<lparr>draws := draws s + 1\<rparr>) = world (s'\<lparr>draws := draws s + 1\<rparr>)"
    using assms by (simp add: world_def)
  then have "world (spawnCars_loop rng r n (s\<lparr>draws := draws s + 1\<rparr>))
      = world (spawnCars_loop rng r n (s'\<lparr>draws := draws s + 1\<rparr>))" for n
    by (rule spawnCars_loop_world)
  then show ?thesis using assms by (simp add: spawnCarsOnRow_def Let_def f)
qed

lemma addRow_world:
  assumes "world s = world s'"
  shows "world (addRow rng x s) = world (addRow rng x s')"
proof -
  from world_fields [OF assms] have f: "draws s' = draws s" "terrainRows s' = terrainRows s"
    by simp_all
  obtain newRow n where c: "createRow rng x (draws s) = (newRow, n)"
    by (cases "createRow rng x (draws s)")
  have "world (s\<lparr>draws := n, terrainRows := terrainRows s @ [newRow]\<rparr>)
      = world (s'\<lparr>draws := n, terrainRows := terrainRows s @ [newRow]\<rparr>)"
    using assms by (simp add: world_def)
  then have "world (spawnTreesOnRow rng newRow (s\<lparr>draws := n, terrainRows := terrainRows s @ [newRow]\<rparr>))
      = world (spawnTreesOnRow rng newRow (s'\<lparr>draws := n, terrainRows := terrainRows s @ [newRow]\<rparr>))"
    by (rule spawnTreesOnRow_world)
  then have "world (spawnCarsOnRow rng newRow
        (spawnTreesOnRow rng newRow (s\<lparr>draws := n, terrainRows := terrainRows s @ [newRow]\<rparr>)))
      = world (spawnCarsOnRow rng newRow
        (spawnTreesOnRow rng newRow (s'\<lparr>draws := n, terrainRows := terrainRows s @ [newRow]\<rparr>)))"
    by (rule spawnCarsOnRow_world)
  then show ?thesis by (simp add: addRow_def c f Let_def)
qed

lemma extend_loop_world:
  "world s = world s' \<Longrightarrow>
   world (extend_loop rng thr lastX s) = world (extend_loop rng thr lastX s')"
proof (induction rng thr lastX s arbitrary: s' rule: extend_loop.induct)
  case (1 rng thr lastX s)
  show ?case
  proof (cases "lastX < thr")
    case True
    have "world (addRow rng (lastX + ROW_DEPTH) s) = world (addRow rng (lastX + ROW_DEPTH) s')"
      using "1.prems" by (rule addRow_world)
    from "1.IH" [OF True this] True show ?thesis
      by (subst extend_loop.simps, subst (2) extend_loop.simps) simp
  next
    case False
    with "1.prems" show ?thesis
      by (subst extend_loop.simps, subst (2) extend_loop.simps) simp
  qed
qed

lemma updateTerrain_world:
  assumes "world s = world s'"
  shows "world (updateTerrain rng c s) = world (updateTerrain rng c s')"
proof -
  from world_fields [OF assms]
  have f: "trees s' = trees s" "cars s' = cars s" "terrainRows s' = terrainRows s" by simp_all
  have "world (s\<lparr>terrainRows := rs, trees := ts, cars := cs\<rparr>)
      = world (s'\<lparr>terrainRows := rs, trees := ts, cars := cs\<rparr>)" for rs ts cs
    using assms by (simp add: world_def)
  then have "world (extend_loop rng thr lastX (s\<lparr>terrainRows := rs, trees := ts, cars := cs\<rparr>))
      = world (extend_loop rng thr lastX (s'\<lparr>terrainRows := rs, trees := ts, cars := cs\<rparr>))"
    for thr lastX rs ts cs
    by (rule extend_loop_world)
  then show ?thesis
    by (simp add: updateTerrain_def Let_def f)
qed

text \<open>A state is given by the fields the world window leaves alone and those it writes.\<close>

lemma game_eqI:
  fixes s s' :: game
  assumes "same_session s s'" and "world s = world s'"
  shows "s' = s"
  using assms by (intro game.equality) (simp_all add: same_session_def world_def)

lemma before_window_lastTime:
  "carCollisionCheck (trafficMove dt (cameraPull aspect
      (leftBehindCheck (scrollAdvance dt (scoreUpdate (s\<lparr>lastTime := l\<rparr>))))))
   = (carCollisionCheck (trafficMove dt (cameraPull aspect
      (leftBehindCheck (scrollAdvance dt (scoreUpdate s))))))\<lparr>lastTime := l\<rparr>"
proof -
  have a: "scoreUpdate (s\<lparr>lastTime := l\<rparr>) = (scoreUpdate s)\<lparr>lastTime := l\<rparr>"
    by (simp add: scoreUpdate_def)
  have b: "scrollAdvance dt (u\<lparr>lastTime := l\<rparr>) = (scrollAdvance dt u)\<lparr>lastTime := l\<rparr>" for u
    by (simp add: scrollAdvance_def)
  have c: "leftBehindCheck (u\<lparr>lastTime := l\<rparr>) = (leftBehindCheck u)\<lparr>lastTime := l\<rparr>" for u
    by (simp add: leftBehindCheck_def leftBehind_def gameOver_def)
  have d: "cameraPull aspect (u\<lparr>lastTime := l\<rparr>) = (cameraPull aspect u)\<lparr>lastTime := l\<rparr>" for u
    by (simp add: cameraPull_def Let_def)
  have e: "trafficMove dt (u\<lparr>lastTime := l\<rparr>) = (trafficMove dt u)\<lparr>lastTime := l\<rparr>" for u
    by (simp add: trafficMove_def)
  have f: "carCollisionCheck (u\<lparr>lastTime := l\<rparr>) = (carCollisionCheck u)\<lparr>lastTime := l\<rparr>" for u
    by (simp add: carCollisionCheck_def carHit_def checkCollisionWithCars_def gameOver_def)
  show ?thesis by (simp only: a b c d e f)
qed

lemma drawScene_timestamp:
  assumes "agree rng rng' (draws s)" and "dt_of time s = dt_of time' s"
  shows "drawScene rng time aspect s = (drawScene rng' time' aspect s)\<lparr>lastTime := Some time\<rparr>"
proof (cases "isPaused s")
  case True
  then show ?thesis by (simp add: drawScene_paused)
next
  case False
  define dt where "dt = dt_of time s"
  define b where "b = carCollisionCheck (trafficMove dt (cameraPull aspect
      (leftBehindCheck (scrollAdvance dt (scoreUpdate s)))))"
  have d1: "drawScene rng time aspect s = frameDone (windowUpdate rng (b\<lparr>lastTime := Some time\<rparr>))"
    using False
    by (simp add: drawScene_phases tick_code_order_def clockAdvance_def Let_def
        before_window_lastTime b_def dt_def)
  have d2: "drawScene rng' time' aspect s = frameDone (windowUpdate rng' (b\<lparr>lastTime := Some time'\<rparr>))"
    using False assms(2)
    by (simp add: drawScene_phases tick_code_order_def clockAdvance_def Let_def
        before_window_lastTime b_def dt_def)
  let ?u = "updateTerrain rng (cameraX b) (b\<lparr>lastTime := Some time\<rparr>)"
  let ?u' = "updateTerrain rng' (cameraX b) (b\<lparr>lastTime := Some time'\<rparr>)"
  have "draws b = draws s"
    by (simp add: b_def carCollisionCheck_def trafficMove_def cameraPull_def Let_def
        leftBehindCheck_def scrollAdvance_def gameOver_def scoreUpdate_def)
  with assms(1) have "agree rng rng' (draws (b\<lparr>lastTime := Some time'\<rparr>))" by simp
  then have "updateTerrain rng (cameraX b) (b\<lparr>lastTime := Some time'\<rparr>) = ?u'"
    by (rule updateTerrain_agree)
  moreover have "world (b\<lparr>lastTime := Some time\<rparr>) = world (b\<lparr>lastTime := Some time'\<rparr>)"
    by (simp add: world_def)
  then have "world ?u = world (updateTerrain rng (cameraX b) (b\<lparr>lastTime := Some time'\<rparr>))"
    by (rule updateTerrain_world)
  ultimately have w: "world ?u = world ?u'" by simp
  have s1: "same_session (b\<lparr>lastTime := Some time\<rparr>) ?u" by (rule updateTerrain_session)
  have s2: "same_session (b\<lparr>lastTime := Some time'\<rparr>) ?u'" by (rule updateTerrain_session)
  have "same_session ?u (?u'\<lparr>lastTime := Some time\<rparr>)"
    using s1 s2 by (simp add: same_session_def)
  moreover have "world ?u = world (?u'\<lparr>lastTime := Some time\<rparr>)"
    using w by (simp add: world_def)
  ultimately have "?u'\<lparr>lastTime := Some time\<rparr> = ?u" by (rule game_eqI)
  then have eq: "?u = ?u'\<lparr>lastTime := Some time\<rparr>" by (rule sym)
  have fd: "frameDone (v\<lparr>lastTime := l\<rparr>) = (frameDone v)\<lparr>lastTime := l\<rparr>" for v l
    by (simp add: frameDone_def)
  have "frameDone ?u = frameDone (?u'\<lparr>lastTime := Some time\<rparr>)"
    using eq by (rule arg_cong)
  also have "\<dots> = (frameDone ?u')\<lparr>lastTime := Some time\<rparr>" by (rule fd)
  finally have "frameDone ?u = (frameDone ?u')\<lparr>lastTime := Some time\<rparr>" .
  moreover have "cameraX (b\<lparr>lastTime := l\<rparr>) = cameraX b" for l by simp
  ultimately show ?thesis by (simp only: d1 d2 windowUpdate_def)
qed

text \<open>
  C8 (as the code has it). A frame that simulates gives the outcome of this sequence:
  clock advance, scroll advance, traffic movement, collision detection, score update,
  session transition, and the world window evict/extend last. The outcome is a function
  of the prior state, the draws from the current draw count on and the delta-time: for a
  given canvas, two frames with agreeing draws and the same delta-time end in the same
  state, up to the clock baseline \<open>lastTime\<close>, which is the timestamp itself.
\<close>

theorem frame_sequence_and_determinism:
  "(\<not> isPaused s \<longrightarrow> drawScene rng time aspect s = tick_window_last rng time aspect s)
   \<and> (agree rng rng' (draws s) \<and> dt_of time s = dt_of time' s \<longrightarrow>
        drawScene rng time aspect s = (drawScene rng' time' aspect s)\<lparr>lastTime := Some time\<rparr>)"
  using drawScene_window_last [of s rng time aspect]
    drawScene_timestamp [of rng rng' s time time' aspect]
  by blast

theorem frame_sequence_and_determinism_witness:
  "\<not> isPaused ((globals page0)\<lparr>draws := 5\<rparr>)
   \<and> drawScene draws_fifth 16 1 ((globals page0)\<lparr>draws := 5\<rparr>)
     = tick_window_last draws_fifth 16 1 ((globals page0)\<lparr>draws := 5\<rparr>)
   \<and> agree draws_fifth draws_late (draws ((globals page0)\<lparr>draws := 5\<rparr>))
   \<and> dt_of 16 ((globals page0)\<lparr>draws := 5\<rparr>) = dt_of 48 ((globals page0)\<lparr>draws := 5\<rparr>)
   \<and> drawScene draws_fifth 16 1 ((globals page0)\<lparr>draws := 5\<rparr>)
     = (drawScene draws_late 48 1 ((globals page0)\<lparr>draws := 5\<rparr>))\<lparr>lastTime := Some 16\<rparr>"
proof -
  let ?g = "(globals page0)\<lparr>draws := 5\<rparr>"
  have p: "\<not> isPaused ?g" by (simp add: globals_def)
  have a: "agree draws_fifth draws_late (draws ?g)"
    by (simp add: agree_def draws_fifth_def draws_late_def)
  have d: "dt_of 16 ?g = dt_of 48 ?g" by (simp add: dt_of_def globals_def)
  note t = frame_sequence_and_determinism [of ?g draws_fifth 16 1 draws_late 48]
  from t [THEN conjunct1] p
  have 1: "drawScene draws_fifth 16 1 ?g = tick_window_last draws_fifth 16 1 ?g" by blast
  from t [THEN conjunct2] a d
  have 2: "drawScene draws_fifth 16 1 ?g = (drawScene draws_late 48 1 ?g)\<lparr>lastTime := Some 16\<rparr>"
    by blast
  from p a d 1 2 show ?thesis by blast
qed

section \<open>Two idle frames, evaluated\<close>

lemma one_frame_probe:
  "probe one_frame = (False, False, - 12, True, 28, True, 28, - 9)"
  by code_simp

lemma two_frames_probe:
  "probe two_frames = (False, False, - (7498 / 625), True, 29, True, 29, - 9)"
  by code_simp

lemma spec_frame_probe:
  "probe spec_frame = (False, False, - (7498 / 625), True, 29, True, 29, - (5669 / 625))"
  by code_simp

theorem entities_within_window_witness:
  "lane_kept draws_fifth (start draws_fifth page0) [Tick 16 1, Tick 32 1]
   \<and> in_window (run draws_fifth (start draws_fifth page0) [Tick 16 1, Tick 32 1])
   \<and> in_window two_frames"
proof -
  have r: "run draws_fifth (start draws_fifth page0) [Tick 16 1, Tick 32 1] = two_frames"
    by (simp add: run_def two_frames_def one_frame_def)
  have o: "\<not> isPaused one_frame" "terrainRows one_frame \<noteq> []"
    "row_x (last (terrainRows one_frame)) = 28" "cameraX one_frame = - 12"
    using one_frame_probe by (simp_all add: probe_def)
  have t: "cameraX two_frames = - (7498 / 625)"
    using two_frames_probe by (simp add: probe_def)
  have l: "lastTime one_frame = Some 16"
    by (simp add: one_frame_def lastTime_drawScene)
  have k: "lane_kept draws_fifth (start draws_fifth page0) [Tick 16 1, Tick 32 1]"
    using o t l start_last_row [of draws_fifth page0]
    by (simp add: start_fields dt_of_def one_frame_def [symmetric] two_frames_def [symmetric])
  from entities_within_window [OF k] k r show ?thesis by simp
qed

text \<open>
  C5 as stated fails. After two idle frames 16 ms apart the scroll position is
  \<open>-11.9968\<close>, so the band ends at \<open>28.0032\<close>, yet the lane at 29 exists and carries a car.
\<close>

theorem window_band_counterexample:
  "cars two_frames \<noteq> []
   \<and> cameraX two_frames = - (7498 / 625)
   \<and> car_x (last (cars two_frames)) = 29
   \<and> cameraX two_frames + real_of_int DRAW_DISTANCE < car_x (last (cars two_frames))"
  using two_frames_probe by (simp add: probe_def DRAW_DISTANCE_def)

lemma late_frame_over: "isPaused late_frame \<and> isGameOver late_frame"
  unfolding late_frame_def
proof (rule drawScene_left_behind)
  show "\<not> isPaused one_frame"
    using one_frame_probe by (simp add: probe_def)
  have "cameraX one_frame = - 12"
    using one_frame_probe by (simp add: probe_def)
  moreover have "p_x (player one_frame) = - 5"
    by (simp add: one_frame_def player_drawScene start_fields)
  moreover have "dt_of 20016 one_frame = 20"
    by (simp add: dt_of_def one_frame_def lastTime_drawScene)
  ultimately show "p_x (player one_frame) < cameraX one_frame + scrollSpeed * dt_of 20016 one_frame + 38 / 10"
    by (simp add: scrollSpeed_def)
qed

theorem pause_click_resumes_after_game_over_witness:
  "isGameOver late_frame \<and> isPaused late_frame
   \<and> \<not> isPaused (pauseClick late_frame) \<and> isGameOver (pauseClick late_frame)
   \<and> cameraX late_frame < cameraX (drawScene draws_fifth 20032 1 (pauseClick late_frame))"
proof -
  have d: "0 < dt_of 20032 late_frame"
    by (simp add: dt_of_def late_frame_def lastTime_drawScene)
  from pause_click_resumes_after_game_over [OF _ _ d, of draws_fifth 1] late_frame_over
  show ?thesis by simp
qed

text \<open>
  C8 as stated fails. In the second idle frame the code moves the traffic before it
  extends the world window, so the car spawned on the new lane at 29 keeps its spawn
  position \<open>-9\<close>; in the order of the specification the window is extended first and the
  same car has already moved when the frame ends.
\<close>

theorem frame_order_counterexample:
  "car_z (last (cars (drawScene draws_fifth 32 1 one_frame))) = - 9
   \<and> car_z (last (cars (tick_spec_order draws_fifth 32 1 one_frame))) = - (5669 / 625)
   \<and> drawScene draws_fifth 32 1 one_frame \<noteq> tick_spec_order draws_fifth 32 1 one_frame"
proof -
  have a: "car_z (last (cars two_frames)) = - 9"
    using two_frames_probe by (simp add: probe_def)
  have b: "car_z (last (cars spec_frame)) = - (5669 / 625)"
    using spec_frame_probe by (simp add: probe_def)
  from a b have "two_frames \<noteq> spec_frame" by auto
  with a b show ?thesis by (simp add: two_frames_def spec_frame_def)
qed

end
